theory Spec2Isabelle
  imports Complex_Main
begin

section \<open>Data model (types.ts)\<close>

text \<open>
  The entity interfaces of \<^verbatim>\<open>types.ts\<close> become records. Several interfaces share the
  field names \<^verbatim>\<open>id\<close>, \<^verbatim>\<open>name\<close>, \<^verbatim>\<open>amount\<close>, \<^verbatim>\<open>date\<close> and \<^verbatim>\<open>category\<close>; those fields
  carry the entity as a prefix here. A JavaScript \<^verbatim>\<open>number\<close> is modelled as an exact
  \<^typ>\<open>real\<close>: rounding, \<^verbatim>\<open>NaN\<close> and the infinities are outside the model. An optional
  field (\<^verbatim>\<open>imageUrl?: string\<close>) is an \<^typ>\<open>'a option\<close>, with \<^const>\<open>None\<close> for
  \<^verbatim>\<open>undefined\<close>.
\<close>

datatype PaymentStatus = Paid | Pending

datatype LogAction = Created | Updated | Deleted

datatype LiabilityStatus = Active | Settled

datatype ThemeMode = Light | Dark | System

datatype DateSystem = AD | BS

datatype CurrencyCode =
  USD | NPR | INR | PKR | EUR | GBP | CAD | AUD | JPY | CNY | BRL | ZAR | AED | SAR | KES | NGN
  | CUSTOM

record Currency =
  code :: string
  symbol :: string
  currency_name :: string

text \<open>
  \<^verbatim>\<open>category\<close> is a union of string literals in the source, but both importers store
  whatever text the CSV holds through an \<^verbatim>\<open>as any\<close> cast, so it is a string here.
\<close>

record Product =
  product_id :: string
  product_name :: string
  unit :: string
  basePrice :: real
  category :: string
  imageUrl :: "string option"
  isGeneratingImage :: "bool option"
  currentStock :: real
  minStockLevel :: real
  discountPercentage :: "real option"
  taxPercentage :: "real option"

record Customer =
  customer_id :: string
  customer_name :: string
  phone :: string
  email :: "string option"
  address :: "string option"
  createdAt :: real

record Sale =
  sale_id :: string
  customerId :: string
  productId :: string
  quantity :: real
  totalAmount :: real
  sale_date :: real
  paymentStatus :: PaymentStatus
  sale_notes :: "string option"

text \<open>
  \<^verbatim>\<open>metadata?: any\<close> only ever receives the sale that \<^verbatim>\<open>deleteSale\<close> removes, and
  \<^verbatim>\<open>restoreSale\<close> reads it back \<^verbatim>\<open>as Sale\<close>.
\<close>

record ActivityLog =
  log_id :: string
  action :: LogAction
  timestamp :: real
  details :: string
  entityName :: string
  customerName :: string
  log_amount :: real
  metadata :: "Sale option"

record Expense =
  expense_id :: string
  description :: string
  expense_amount :: real
  expense_date :: real
  expense_category :: string

record Liability =
  liability_id :: string
  source :: string
  liability_amount :: real
  interestRate :: real
  liability_date :: real
  dueDate :: real
  status :: LiabilityStatus

section \<open>The entity store (App.tsx, state hooks)\<close>

text \<open>
  The six collections and four configuration scalars that \<^verbatim>\<open>App\<close> keeps in
  \<^verbatim>\<open>useState\<close> hooks. Every mutation operation below is a function from the store to the
  store: the closure's reads (\<^verbatim>\<open>sales.find\<close>, \<^verbatim>\<open>products.find\<close>) and the functional
  updaters (\<^verbatim>\<open>setSales(prev => ...)\<close>) both see the store the operation is applied to.
\<close>

record app_state =
  sales :: "Sale list"
  customers :: "Customer list"
  products :: "Product list"
  expenses :: "Expense list"
  liabilities :: "Liability list"
  logs :: "ActivityLog list"
  themeMode :: ThemeMode
  dateSystem :: DateSystem
  currencyCode :: CurrencyCode
  customCurrency :: "Currency option"

text \<open>
  What an operation takes from the JavaScript runtime: the fresh log id
  \<^verbatim>\<open>Date.now().toString() + Math.random()\<close>, the clock \<^verbatim>\<open>Date.now()\<close>, and the
  rendering of a number inside a template literal.
\<close>

record js_env =
  freshId :: string
  dateNow :: real
  numToString :: "real \<Rightarrow> string"

text \<open>\<^verbatim>\<open>s || d\<close> on strings: the empty string is falsy.\<close>

definition orElse :: "string \<Rightarrow> string \<Rightarrow> string" where
  "orElse s d = (if s = [] then d else s)"

text \<open>\<^verbatim>\<open>p?.name || d\<close> for the result of a \<^verbatim>\<open>find\<close>.\<close>

definition productNameOr :: "Product option \<Rightarrow> string \<Rightarrow> string" where
  "productNameOr p d = (case p of None \<Rightarrow> d | Some x \<Rightarrow> orElse (product_name x) d)"

definition customerNameOr :: "Customer option \<Rightarrow> string \<Rightarrow> string" where
  "customerNameOr c d = (case c of None \<Rightarrow> d | Some x \<Rightarrow> orElse (customer_name x) d)"

definition paymentStatusText :: "PaymentStatus \<Rightarrow> string" where
  "paymentStatusText s = (case s of Paid \<Rightarrow> ''Paid'' | Pending \<Rightarrow> ''Pending'')"

section \<open>Sale operations (App.tsx)\<close>

definition recordActivity ::
  "js_env \<Rightarrow> LogAction \<Rightarrow> string \<Rightarrow> string \<Rightarrow> real \<Rightarrow> string \<Rightarrow> Sale option
    \<Rightarrow> app_state \<Rightarrow> app_state" where
  "recordActivity env act entity cust amt det meta st =
     st\<lparr>logs :=
       \<lparr>log_id = freshId env, action = act, timestamp = dateNow env, details = det,
        entityName = entity, customerName = cust, log_amount = amt, metadata = meta\<rparr>
       # logs st\<rparr>"

definition addSale :: "js_env \<Rightarrow> Sale \<Rightarrow> app_state \<Rightarrow> app_state" where
  "addSale env newSale st =
     (let p = find (\<lambda>p. product_id p = productId newSale) (products st);
          c = find (\<lambda>c. customer_id c = customerId newSale) (customers st);
          st1 = st\<lparr>sales := newSale # sales st\<rparr>;
          st2 = st1\<lparr>products :=
                  map (\<lambda>prod. if product_id prod = productId newSale
                         then prod\<lparr>currentStock := max 0 (currentStock prod - quantity newSale)\<rparr>
                         else prod) (products st1)\<rparr>
      in recordActivity env Created (productNameOr p ''Unknown'') (customerNameOr c ''Retail'')
           (totalAmount newSale)
           (''Sold '' @ numToString env (quantity newSale) @ '' units'') None st2)"

definition updateSale :: "js_env \<Rightarrow> Sale \<Rightarrow> app_state \<Rightarrow> app_state" where
  "updateSale env updatedSale st =
     (case find (\<lambda>s. sale_id s = sale_id updatedSale) (sales st) of
        None \<Rightarrow> st
      | Some oldSale \<Rightarrow>
          (let next1 = map (\<lambda>p. if product_id p = productId oldSale
                              then p\<lparr>currentStock := currentStock p + quantity oldSale\<rparr>
                              else p) (products st);
               next2 = map (\<lambda>p. if product_id p = productId updatedSale
                              then p\<lparr>currentStock := max 0 (currentStock p - quantity updatedSale)\<rparr>
                              else p) next1;
               st1 = st\<lparr>products := next2\<rparr>;
               st2 = st1\<lparr>sales :=
                       map (\<lambda>s. if sale_id s = sale_id updatedSale then updatedSale else s)
                         (sales st1)\<rparr>;
               p = find (\<lambda>prod. product_id prod = productId updatedSale) (products st);
               c = find (\<lambda>cust. customer_id cust = customerId updatedSale) (customers st)
           in recordActivity env Updated (productNameOr p ''Unknown'') (customerNameOr c ''Unknown'')
                (totalAmount updatedSale)
                (''Adjusted quantity: '' @ numToString env (quantity updatedSale)
                   @ '', Status: '' @ paymentStatusText (paymentStatus updatedSale))
                None st2))"

definition deleteSale :: "js_env \<Rightarrow> string \<Rightarrow> app_state \<Rightarrow> app_state" where
  "deleteSale env sid st =
     (let st1 =
            (case find (\<lambda>s. sale_id s = sid) (sales st) of
               None \<Rightarrow> st
             | Some saleToDelete \<Rightarrow>
                 (let p = find (\<lambda>prod. product_id prod = productId saleToDelete) (products st);
                      c = find (\<lambda>cust. customer_id cust = customerId saleToDelete) (customers st)
                  in recordActivity env Deleted (productNameOr p ''Unknown'')
                       (customerNameOr c ''Unknown'') (totalAmount saleToDelete)
                       ''Transaction removed from ledger'' (Some saleToDelete) st))
      in st1\<lparr>sales := filter (\<lambda>s. sale_id s \<noteq> sid) (sales st1)\<rparr>)"

text \<open>
  \<^verbatim>\<open>restoreSale\<close> may call \<^verbatim>\<open>alert\<close>: the result pairs the message shown to the user
  (\<^const>\<open>None\<close> when no alert is raised) with the store.
\<close>

definition restoreSale :: "js_env \<Rightarrow> ActivityLog \<Rightarrow> app_state \<Rightarrow> string option \<times> app_state" where
  "restoreSale env lg st =
     (case metadata lg of
        None \<Rightarrow> (None, st)
      | Some saleToRestore \<Rightarrow>
          if list_ex (\<lambda>s. sale_id s = sale_id saleToRestore) (sales st)
          then (Some ''This record is already present in the active ledger.'', st)
          else
            (let st1 = st\<lparr>sales := saleToRestore # sales st\<rparr>;
                 st2 = st1\<lparr>products :=
                         map (\<lambda>p. if product_id p = productId saleToRestore
                                then p\<lparr>currentStock :=
                                        max 0 (currentStock p - quantity saleToRestore)\<rparr>
                                else p) (products st1)\<rparr>;
                 st3 = st2\<lparr>logs := filter (\<lambda>l. log_id l \<noteq> log_id lg) (logs st2)\<rparr>
             in (None,
                 recordActivity env Created (entityName lg) (customerName lg) (log_amount lg)
                   (''Restored archived transaction: '' @ details lg) None st3)))"

text \<open>
  A sequence of sale operations, each with the runtime values it draws. The alert of
  \<^verbatim>\<open>restoreSale\<close> does not change the store and is dropped here.
\<close>

datatype sale_op =
  AddSale js_env Sale
  | UpdateSale js_env Sale
  | DeleteSale js_env string
  | RestoreSale js_env ActivityLog

fun apply_sale_op :: "sale_op \<Rightarrow> app_state \<Rightarrow> app_state" where
  "apply_sale_op (AddSale env s) st = addSale env s st"
| "apply_sale_op (UpdateSale env s) st = updateSale env s st"
| "apply_sale_op (DeleteSale env sid) st = deleteSale env sid st"
| "apply_sale_op (RestoreSale env lg) st = snd (restoreSale env lg st)"

fun run_sale_ops :: "sale_op list \<Rightarrow> app_state \<Rightarrow> app_state" where
  "run_sale_ops [] st = st"
| "run_sale_ops (op # ops) st = run_sale_ops ops (apply_sale_op op st)"

section \<open>Customer operations (App.tsx)\<close>

definition addCustomer :: "Customer \<Rightarrow> app_state \<Rightarrow> app_state" where
  "addCustomer newCustomer st = st\<lparr>customers := newCustomer # customers st\<rparr>"

definition updateCustomer :: "Customer \<Rightarrow> app_state \<Rightarrow> app_state" where
  "updateCustomer updatedCustomer st =
     (let oldCustomer = find (\<lambda>c. customer_id c = customer_id updatedCustomer) (customers st);
          st1 = st\<lparr>customers :=
                  map (\<lambda>c. if customer_id c = customer_id updatedCustomer then updatedCustomer else c)
                    (customers st)\<rparr>
      in case oldCustomer of
           None \<Rightarrow> st1
         | Some old \<Rightarrow>
             if customer_name old \<noteq> customer_name updatedCustomer
             then st1\<lparr>logs :=
                    map (\<lambda>l. if customerName l = customer_name old
                           then l\<lparr>customerName := customer_name updatedCustomer\<rparr> else l)
                      (logs st1)\<rparr>
             else st1)"

definition deleteCustomer :: "string \<Rightarrow> app_state \<Rightarrow> app_state" where
  "deleteCustomer cid st =
     (let st1 = st\<lparr>customers := filter (\<lambda>c. customer_id c \<noteq> cid) (customers st)\<rparr>
      in st1\<lparr>sales := filter (\<lambda>s. customerId s \<noteq> cid) (sales st1)\<rparr>)"

section \<open>Liability operations (App.tsx)\<close>

definition addLiability :: "Liability \<Rightarrow> app_state \<Rightarrow> app_state" where
  "addLiability lib st = st\<lparr>liabilities := lib # liabilities st\<rparr>"

definition updateLiability :: "Liability \<Rightarrow> app_state \<Rightarrow> app_state" where
  "updateLiability updatedLib st =
     st\<lparr>liabilities :=
       map (\<lambda>l. if liability_id l = liability_id updatedLib then updatedLib else l)
         (liabilities st)\<rparr>"

definition settleLiability :: "string \<Rightarrow> app_state \<Rightarrow> app_state" where
  "settleLiability lid st =
     st\<lparr>liabilities :=
       map (\<lambda>lib. if liability_id lib = lid then lib\<lparr>status := Settled\<rparr> else lib)
         (liabilities st)\<rparr>"

text \<open>
  The operations \<^verbatim>\<open>App\<close> defines on the liabilities collection. The source has no
  \<^verbatim>\<open>deleteLiability\<close>.
\<close>

datatype liability_op =
  AddLiability Liability
  | UpdateLiability Liability
  | SettleLiability string

fun apply_liability_op :: "liability_op \<Rightarrow> app_state \<Rightarrow> app_state" where
  "apply_liability_op (AddLiability lib) st = addLiability lib st"
| "apply_liability_op (UpdateLiability lib) st = updateLiability lib st"
| "apply_liability_op (SettleLiability lid) st = settleLiability lid st"

fun run_liability_ops :: "liability_op list \<Rightarrow> app_state \<Rightarrow> app_state" where
  "run_liability_ops [] st = st"
| "run_liability_ops (op # ops) st = run_liability_ops ops (apply_liability_op op st)"

section \<open>Bulk product import (App.tsx)\<close>

text \<open>
  The synchronous part of \<^verbatim>\<open>addProductsBulk\<close>: the five wipes and the replacement of the
  products collection.
\<close>

definition addProductsBulk :: "Product list \<Rightarrow> app_state \<Rightarrow> app_state" where
  "addProductsBulk newProducts st =
     (let st1 = st\<lparr>sales := []\<rparr>;
          st2 = st1\<lparr>customers := []\<rparr>;
          st3 = st2\<lparr>expenses := []\<rparr>;
          st4 = st3\<lparr>liabilities := []\<rparr>;
          st5 = st4\<lparr>logs := []\<rparr>;
          prodsWithLoading = map (\<lambda>p. p\<lparr>isGeneratingImage := Some True\<rparr>) newProducts
      in st5\<lparr>products := prodsWithLoading\<rparr>)"

text \<open>
  The continuation of one \<^verbatim>\<open>forEach\<close> callback after \<^verbatim>\<open>await generateProductImage\<close>:
  \<^verbatim>\<open>pid\<close> is the id of the product the callback was started for and \<^verbatim>\<open>url\<close> what the
  image service returned (\<^const>\<open>None\<close> for \<^verbatim>\<open>null\<close>). \<^verbatim>\<open>imageUrl || undefined\<close> also
  turns the empty string into \<^verbatim>\<open>undefined\<close>.
\<close>

definition imageResolved :: "string \<Rightarrow> string option \<Rightarrow> app_state \<Rightarrow> app_state" where
  "imageResolved pid url st =
     st\<lparr>products :=
       map (\<lambda>item. if product_id item = pid
              then item\<lparr>imageUrl := (case url of None \<Rightarrow> None
                                        | Some u \<Rightarrow> if u = [] then None else Some u),
                        isGeneratingImage := Some False\<rparr>
              else item) (products st)\<rparr>"

fun imagesResolved :: "(string \<times> string option) list \<Rightarrow> app_state \<Rightarrow> app_state" where
  "imagesResolved [] st = st"
| "imagesResolved ((pid, url) # rs) st = imagesResolved rs (imageResolved pid url st)"

section \<open>Bulk sales import (App.tsx)\<close>

text \<open>
  A parsed CSV row as \<^verbatim>\<open>Dashboard\<close> builds it: every field is present, the text
  fields are strings and \<^verbatim>\<open>Quantity\<close> and \<^verbatim>\<open>Amount\<close> are numbers.
\<close>

record parsed_row =
  DateAD :: string
  Customer :: string
  Product :: string
  Category :: string
  Quantity :: real
  Unit :: string
  Amount :: real
  Status :: string

text \<open>
  \<^verbatim>\<open>String.prototype.toLowerCase\<close> and \<^verbatim>\<open>trim\<close> on the ASCII range: letters
  \<^verbatim>\<open>A\<close> to \<^verbatim>\<open>Z\<close> are lowered, and blank, tab, line feed, vertical tab, form feed and
  carriage return are white space. Other characters are left as they are; the runtime
  also lowers letters and strips white space beyond ASCII.
\<close>

definition toLowerChar :: "char \<Rightarrow> char" where
  "toLowerChar c =
     (case map_of (zip ''ABCDEFGHIJKLMNOPQRSTUVWXYZ'' ''abcdefghijklmnopqrstuvwxyz'') c of
        None \<Rightarrow> c
      | Some l \<Rightarrow> l)"

definition toLowerCase :: "string \<Rightarrow> string" where
  "toLowerCase s = map toLowerChar s"

definition isWhiteSpace :: "char \<Rightarrow> bool" where
  "isWhiteSpace c = (let n = (of_char c :: nat) in n = 32 \<or> (9 \<le> n \<and> n \<le> 13))"

definition trim :: "string \<Rightarrow> string" where
  "trim s = rev (dropWhile isWhiteSpace (rev (dropWhile isWhiteSpace s)))"

text \<open>
  What the import takes from the runtime: \<^verbatim>\<open>Date.now()\<close> while the row with a given
  index is processed, the rendering of a number in a string concatenation, and
  \<^verbatim>\<open>new Date(text).getTime()\<close>, with \<^const>\<open>None\<close> for \<^verbatim>\<open>NaN\<close>.
\<close>

record import_env =
  nowAt :: "nat \<Rightarrow> real"
  showNumber :: "real \<Rightarrow> string"
  parseDate :: "string \<Rightarrow> real option"

text \<open>
  \<^verbatim>\<open>find\<close> returns a reference into the array, and the assignment
  \<^verbatim>\<open>product.currentStock = ...\<close> writes through it: the first element that satisfies the
  predicate is replaced in place.
\<close>

fun updateFirst :: "('a \<Rightarrow> bool) \<Rightarrow> ('a \<Rightarrow> 'a) \<Rightarrow> 'a list \<Rightarrow> 'a list" where
  "updateFirst P f [] = []"
| "updateFirst P f (x # xs) = (if P x then f x # xs else x # updateFirst P f xs)"

text \<open>The body of the \<^verbatim>\<open>forEach\<close> callback, on the three local accumulators.\<close>

definition importRow ::
  "import_env \<Rightarrow> parsed_row \<Rightarrow> nat \<Rightarrow> Sale list \<times> Product list \<times> Customer list
    \<Rightarrow> Sale list \<times> Product list \<times> Customer list" where
  "importRow env row index acc =
     (case acc of (newSales, currentProducts, currentCustomers) \<Rightarrow>
        (let sameCustomer =
               (\<lambda>c. trim (toLowerCase (customer_name c)) = trim (toLowerCase (Customer row)));
             (customer, currentCustomers1) =
               (case find sameCustomer currentCustomers of
                  Some c \<Rightarrow> (c, currentCustomers)
                | None \<Rightarrow>
                    (let c = \<lparr>customer_id =
                                 ''CUST-'' @ showNumber env (nowAt env index) @ ''-''
                                   @ showNumber env (real index),
                               customer_name = Customer row, phone = [], email = None,
                               address = None, createdAt = nowAt env index\<rparr>
                     in (c, currentCustomers @ [c])));
             sameProduct =
               (\<lambda>p. trim (toLowerCase (product_name p)) = trim (toLowerCase (Product row)));
             (product, currentProducts1) =
               (case find sameProduct currentProducts of
                  Some p \<Rightarrow> (p, currentProducts)
                | None \<Rightarrow>
                    (let p = \<lparr>product_id =
                                 ''PROD-'' @ showNumber env (nowAt env index) @ ''-''
                                   @ showNumber env (real index),
                               product_name = Product row, unit = orElse (Unit row) ''kg'',
                               basePrice =
                                 Amount row / (if Quantity row = 0 then 1 else Quantity row),
                               category = orElse (Category row) ''General'', imageUrl = None,
                               isGeneratingImage = Some True, currentStock = 0,
                               minStockLevel = 5, discountPercentage = None,
                               taxPercentage = None\<rparr>
                     in (p, currentProducts @ [p])));
             rawStatus = toLowerCase (trim (orElse (Status row) ''Paid''));
             finalStatus = (if rawStatus = ''paid'' then Paid else Pending);
             saleDate =
               (case parseDate env (DateAD row) of
                  None \<Rightarrow> nowAt env index
                | Some t \<Rightarrow> if t = 0 then nowAt env index else t);
             sale = \<lparr>sale_id =
                       ''SALE-'' @ showNumber env (nowAt env index) @ ''-''
                         @ showNumber env (real index),
                     customerId = customer_id customer, productId = product_id product,
                     quantity = Quantity row, totalAmount = Amount row, sale_date = saleDate,
                     paymentStatus = finalStatus,
                     sale_notes = Some ''Bulk Imported (New Session)''\<rparr>
         in (newSales @ [sale],
             updateFirst sameProduct
               (\<lambda>p. p\<lparr>currentStock := max 0 (currentStock p - Quantity row)\<rparr>) currentProducts1,
             currentCustomers1)))"

fun importRows ::
  "import_env \<Rightarrow> parsed_row list \<Rightarrow> nat \<Rightarrow> Sale list \<times> Product list \<times> Customer list
    \<Rightarrow> Sale list \<times> Product list \<times> Customer list" where
  "importRows env [] index acc = acc"
| "importRows env (row # rows) index acc =
     importRows env rows (Suc index) (importRow env row index acc)"

definition bulkImportSales :: "import_env \<Rightarrow> parsed_row list \<Rightarrow> app_state \<Rightarrow> app_state" where
  "bulkImportSales env parsedRows st =
     (let st1 = st\<lparr>expenses := []\<rparr>;
          st2 = st1\<lparr>liabilities := []\<rparr>;
          st3 = st2\<lparr>logs := []\<rparr>
      in case importRows env parsedRows 0 ([], [], []) of
           (newSales, currentProducts, currentCustomers) \<Rightarrow>
             st3\<lparr>sales := newSales, products := currentProducts,
                 customers := currentCustomers\<rparr>)"

section \<open>The ledger of charged sales\<close>

text \<open>
  The specification's stock conservation property speaks of the sales whose quantity is
  currently deducted from the stock: those ``added via addSale/restoreSale, not yet followed
  by a stock-reversing updateSale''. \<open>ledger_step\<close> follows these words, next to the
  store: \<^verbatim>\<open>addSale\<close> and a \<^verbatim>\<open>restoreSale\<close> that passes its guard put their sale on the
  ledger, an \<^verbatim>\<open>updateSale\<close> that finds its sale takes one occurrence of the old record off
  and puts the new record on, and \<^verbatim>\<open>deleteSale\<close> leaves the ledger as it is.
\<close>

fun ledger_step :: "sale_op \<Rightarrow> app_state \<Rightarrow> Sale list \<Rightarrow> Sale list" where
  "ledger_step (AddSale env s) st L = s # L"
| "ledger_step (UpdateSale env s) st L =
     (case find (\<lambda>x. sale_id x = sale_id s) (sales st) of
        None \<Rightarrow> L
      | Some oldSale \<Rightarrow> s # remove1 oldSale L)"
| "ledger_step (DeleteSale env sid) st L = L"
| "ledger_step (RestoreSale env lg) st L =
     (case metadata lg of
        None \<Rightarrow> L
      | Some s \<Rightarrow> if list_ex (\<lambda>x. sale_id x = sale_id s) (sales st) then L else s # L)"

fun ledger :: "sale_op list \<Rightarrow> app_state \<Rightarrow> Sale list \<Rightarrow> Sale list" where
  "ledger [] st L = L"
| "ledger (op # ops) st L = ledger ops (apply_sale_op op st) (ledger_step op st L)"

text \<open>The quantity a ledger charges to the product with id \<open>pid\<close>.\<close>

definition charged :: "string \<Rightarrow> Sale list \<Rightarrow> real" where
  "charged pid L = sum_list (map quantity (filter (\<lambda>s. productId s = pid) L))"

text \<open>The stock of every product record that carries the id \<open>pid\<close>, in store order.\<close>

definition stocks :: "string \<Rightarrow> app_state \<Rightarrow> real list" where
  "stocks pid st = map currentStock (filter (\<lambda>p. product_id p = pid) (products st))"

text \<open>
  An operation is unclamped for \<open>pid\<close> when its decrement of that product's stock does not
  reach the floor \<^verbatim>\<open>Math.max(0, ...)\<close>: the quantity to deduct is at most the stock it
  is deducted from.
\<close>

fun unclamped_step :: "string \<Rightarrow> sale_op \<Rightarrow> app_state \<Rightarrow> bool" where
  "unclamped_step pid (AddSale env s) st =
     (if productId s = pid then list_all (\<lambda>c. quantity s \<le> c) (stocks pid st) else True)"
| "unclamped_step pid (UpdateSale env s) st =
     (case find (\<lambda>x. sale_id x = sale_id s) (sales st) of
        None \<Rightarrow> True
      | Some oldSale \<Rightarrow>
          if productId s = pid
          then list_all
                 (\<lambda>c. quantity s \<le> c + (if productId oldSale = pid then quantity oldSale else 0))
                 (stocks pid st)
          else True)"
| "unclamped_step pid (DeleteSale env sid) st = True"
| "unclamped_step pid (RestoreSale env lg) st =
     (case metadata lg of
        None \<Rightarrow> True
      | Some s \<Rightarrow>
          if list_ex (\<lambda>x. sale_id x = sale_id s) (sales st) then True
          else if productId s = pid then list_all (\<lambda>c. quantity s \<le> c) (stocks pid st)
          else True)"

fun unclamped :: "string \<Rightarrow> sale_op list \<Rightarrow> app_state \<Rightarrow> bool" where
  "unclamped pid [] st = True"
| "unclamped pid (op # ops) st =
     (unclamped_step pid op st \<and> unclamped pid ops (apply_sale_op op st))"

text \<open>The sale an operation carries, and the requirement that its quantity is positive.\<close>

fun op_sale :: "sale_op \<Rightarrow> Sale option" where
  "op_sale (AddSale env s) = Some s"
| "op_sale (UpdateSale env s) = Some s"
| "op_sale (DeleteSale env sid) = None"
| "op_sale (RestoreSale env lg) = metadata lg"

definition positive_quantity :: "sale_op \<Rightarrow> bool" where
  "positive_quantity op = (case op_sale op of None \<Rightarrow> True | Some s \<Rightarrow> 0 < quantity s)"

section \<open>Liability operations that keep a settlement\<close>

text \<open>
  \<^verbatim>\<open>updateLiability\<close> stores the record it is given, status included. An operation keeps
  the settlement of the liability with id \<open>lid\<close> unless it is an \<^verbatim>\<open>updateLiability\<close> whose
  record has that id and the status Active.
\<close>

definition keeps_settled :: "string \<Rightarrow> liability_op \<Rightarrow> bool" where
  "keeps_settled lid op =
     (case op of
        AddLiability lib \<Rightarrow> True
      | UpdateLiability updatedLib \<Rightarrow>
          (if liability_id updatedLib = lid then status updatedLib = Settled else True)
      | SettleLiability i \<Rightarrow> True)"

section \<open>Persistence and sync controller (App.tsx, sync effect)\<close>

text \<open>
  The sync effect with time made explicit. The controller holds the ref \<^verbatim>\<open>firstSync\<close>,
  the pending timeout of the latest effect run, and the writes made so far. A pending
  timeout is its due time together with what the closure \<^verbatim>\<open>triggerSync\<close> captured:
  \<^verbatim>\<open>user\<close> (the uid, \<^const>\<open>None\<close> for \<^verbatim>\<open>null\<close>), \<^verbatim>\<open>isOfflineMode\<close> and the store
  (the six collections and four scalars of \<^verbatim>\<open>dataToSave\<close>). A write records the store
  and \<^verbatim>\<open>lastUpdated\<close>. The display indicator \<^verbatim>\<open>saveStatus\<close> is left out.
\<close>

datatype flush = LocalWrite app_state real | CloudWrite string app_state real

record sync_ctl =
  firstSync :: bool
  timer :: "(real \<times> string option \<times> bool \<times> app_state) option"
  flushes :: "flush list"

text \<open>
  \<^verbatim>\<open>triggerSync\<close>, run at time \<open>now\<close>: \<^verbatim>\<open>localStorage.setItem\<close> in offline mode,
  \<^verbatim>\<open>syncToCloud\<close> for a signed-in user.
\<close>

definition triggerSync ::
  "string option \<Rightarrow> bool \<Rightarrow> app_state \<Rightarrow> real \<Rightarrow> sync_ctl \<Rightarrow> sync_ctl" where
  "triggerSync user isOfflineMode st now c =
     (if isOfflineMode then c\<lparr>flushes := flushes c @ [LocalWrite st now]\<rparr>
      else case user of
             Some uid \<Rightarrow> c\<lparr>flushes := flushes c @ [CloudWrite uid st now]\<rparr>
           | None \<Rightarrow> c)"

text \<open>
  One run of the effect, at time \<open>now\<close>, after a render in which a dependency changed and
  the store is \<open>st\<close>. The cleanup of the preceding run, \<^verbatim>\<open>clearTimeout(timer)\<close>, comes
  first; then the two early returns; then \<^verbatim>\<open>setTimeout(triggerSync, 1000)\<close>.
\<close>

definition syncEffect ::
  "string option \<Rightarrow> bool \<Rightarrow> real \<Rightarrow> app_state \<Rightarrow> sync_ctl \<Rightarrow> sync_ctl" where
  "syncEffect user isOfflineMode now st c =
     (let c0 = c\<lparr>timer := None\<rparr>
      in if user = None \<and> \<not> isOfflineMode then c0
         else if firstSync c0 then c0\<lparr>firstSync := False\<rparr>
         else c0\<lparr>timer := Some (now + 1000, user, isOfflineMode, st)\<rparr>)"

text \<open>
  The clock reaches \<open>now\<close>: a pending timeout that is due runs its closure. The write is
  stamped with \<open>now\<close>; the runtime runs the timeout at some time from its due time on, and
  only the stamp depends on which.
\<close>

definition timerDue :: "real \<Rightarrow> sync_ctl \<Rightarrow> sync_ctl" where
  "timerDue now c =
     (case timer c of
        None \<Rightarrow> c
      | Some (due, user, isOfflineMode, st) \<Rightarrow>
          if due \<le> now then triggerSync user isOfflineMode st now (c\<lparr>timer := None\<rparr>) else c)"

text \<open>
  A sequence of changes, each with the time at which it is rendered and the store it
  leaves: the clock advances to that time and the effect runs.
\<close>

fun runChanges ::
  "string option \<Rightarrow> bool \<Rightarrow> (real \<times> app_state) list \<Rightarrow> sync_ctl \<Rightarrow> sync_ctl" where
  "runChanges user isOfflineMode [] c = c"
| "runChanges user isOfflineMode ((t, st) # cs) c =
     runChanges user isOfflineMode cs (syncEffect user isOfflineMode t st (timerDue t c))"

text \<open>
  A burst: the changes are in time order and each comes less than 1000 ms after the one
  before it.
\<close>

fun burst :: "(real \<times> app_state) list \<Rightarrow> bool" where
  "burst [] = True"
| "burst [x] = True"
| "burst ((t1, s1) # (t2, s2) # cs) = (t1 \<le> t2 \<and> t2 < t1 + 1000 \<and> burst ((t2, s2) # cs))"

section \<open>Example stores\<close>

definition env0 :: js_env where
  "env0 = \<lparr>freshId = ''L-0'', dateNow = 0, numToString = (\<lambda>x. ''n'')\<rparr>"

definition env1 :: js_env where
  "env1 = \<lparr>freshId = ''L-1'', dateNow = 1, numToString = (\<lambda>x. ''n'')\<rparr>"

definition env2 :: js_env where
  "env2 = \<lparr>freshId = ''L-2'', dateNow = 2, numToString = (\<lambda>x. ''n'')\<rparr>"

definition kale :: Product where
  "kale = \<lparr>product_id = ''P-kale'', product_name = ''Kale'', unit = ''kg'', basePrice = 2,
            category = ''Vegetables'', imageUrl = None, isGeneratingImage = None,
            currentStock = 10, minStockLevel = 5, discountPercentage = None,
            taxPercentage = None\<rparr>"

definition rice :: Product where
  "rice = \<lparr>product_id = ''P-rice'', product_name = ''Rice'', unit = ''kg'', basePrice = 1,
            category = ''Grains'', imageUrl = None, isGeneratingImage = None,
            currentStock = 3, minStockLevel = 1, discountPercentage = None,
            taxPercentage = None\<rparr>"

definition alice :: Customer where
  "alice = \<lparr>customer_id = ''C-alice'', customer_name = ''Alice'', phone = ''1'', email = None,
             address = None, createdAt = 0\<rparr>"

definition bob :: Customer where
  "bob = \<lparr>customer_id = ''C-bob'', customer_name = ''Bob'', phone = ''2'', email = None,
           address = None, createdAt = 0\<rparr>"

definition sale_kale :: "real \<Rightarrow> Sale" where
  "sale_kale q = \<lparr>sale_id = ''S-1'', customerId = ''C-alice'', productId = ''P-kale'',
                   quantity = q, totalAmount = 2 * q, sale_date = 0, paymentStatus = Paid,
                   sale_notes = None\<rparr>"

definition sale_rice :: "real \<Rightarrow> Sale" where
  "sale_rice q = \<lparr>sale_id = ''S-1'', customerId = ''C-alice'', productId = ''P-rice'',
                   quantity = q, totalAmount = q, sale_date = 0, paymentStatus = Paid,
                   sale_notes = None\<rparr>"

definition store0 :: app_state where
  "store0 = \<lparr>sales = [], customers = [alice, bob], products = [kale, rice], expenses = [],
              liabilities = [], logs = [], themeMode = System, dateSystem = BS,
              currencyCode = USD, customCurrency = None\<rparr>"

text \<open>
  The specification's scenario: 4 of the 10 kale are sold, then the sale is deleted.
  \<open>deleted_log\<close> is the log that \<^verbatim>\<open>deleteSale\<close> writes then.
\<close>

definition store_sold :: app_state where
  "store_sold = addSale env0 (sale_kale 4) store0"

definition store_deleted :: app_state where
  "store_deleted = deleteSale env1 ''S-1'' store_sold"

definition deleted_log :: ActivityLog where
  "deleted_log = \<lparr>log_id = ''L-1'', action = Deleted, timestamp = 1,
                   details = ''Transaction removed from ledger'', entityName = ''Kale'',
                   customerName = ''Alice'', log_amount = 8, metadata = Some (sale_kale 4)\<rparr>"

text \<open>A store in which a sale of 2 kale is recorded.\<close>

definition store_kale2 :: app_state where
  "store_kale2 = store0\<lparr>sales := [sale_kale 2]\<rparr>"

definition bob_log :: ActivityLog where
  "bob_log = \<lparr>log_id = ''L-b'', action = Created, timestamp = 0, details = ''Sold n units'',
               entityName = ''Rice'', customerName = ''Bob'', log_amount = 1, metadata = None\<rparr>"

definition loan :: "LiabilityStatus \<Rightarrow> Liability" where
  "loan s = \<lparr>liability_id = ''LB-1'', source = ''Bank'', liability_amount = 100,
              interestRate = 5, liability_date = 0, dueDate = 10, status = s\<rparr>"

text \<open>A store whose logs name Alice once and Bob once.\<close>

definition store_logs :: app_state where
  "store_logs = store0\<lparr>logs := [deleted_log, bob_log]\<rparr>"

text \<open>
  Two histories for the rice stock of 3. In the first a sale of 5 is added, which floors the
  stock, and is then updated to 1; in the second a sale of 1 is added.
\<close>

definition ops_floored :: "sale_op list" where
  "ops_floored = [AddSale env0 (sale_rice 5), UpdateSale env1 (sale_rice 1)]"

definition ops_plain :: "sale_op list" where
  "ops_plain = [AddSale env0 (sale_rice 1)]"

text \<open>
  The specification's scenario as a sequence: 4 kale are sold, the sale is deleted and
  restored, and its quantity is then updated to 3.
\<close>

definition ops_scenario :: "sale_op list" where
  "ops_scenario =
     [AddSale env0 (sale_kale 4), DeleteSale env1 ''S-1'', RestoreSale env2 deleted_log,
      UpdateSale env2 (sale_kale 3)]"

text \<open>One more sale after the scenario, of 9 kale when 3 are left.\<close>

definition op_oversell :: sale_op where
  "op_oversell = AddSale env1 ((sale_kale 9)\<lparr>sale_id := ''S-2''\<rparr>)"

text \<open>A store with one settled liability, and a sequence of liability operations.\<close>

definition store_settled :: app_state where
  "store_settled = store0\<lparr>liabilities := [loan Settled]\<rparr>"

definition ops_liability :: "liability_op list" where
  "ops_liability =
     [SettleLiability ''LB-1'', AddLiability ((loan Active)\<lparr>liability_id := ''LB-2''\<rparr>),
      UpdateLiability ((loan Settled)\<lparr>liability_amount := 50\<rparr>),
      UpdateLiability ((loan Active)\<lparr>liability_id := ''LB-2'', interestRate := 4\<rparr>),
      SettleLiability ''LB-1'']"

text \<open>
  Three CSV rows: the second names the product of the first in capitals and leaves the
  category and unit cells empty, the third names the customer of the first in capitals.
\<close>

definition import_env0 :: import_env where
  "import_env0 = \<lparr>nowAt = (\<lambda>i. 1000), showNumber = (\<lambda>x. ''n''), parseDate = (\<lambda>s. None)\<rparr>"

definition rows0 :: "parsed_row list" where
  "rows0 =
     [\<lparr>DateAD = ''2024-01-01'', Customer = ''Alice'', Product = ''Kale'',
       Category = ''Vegetables'', Quantity = 2, Unit = ''kg'', Amount = 4, Status = ''Paid''\<rparr>,
      \<lparr>DateAD = ''2024-01-02'', Customer = ''Bob'', Product = ''KALE'', Category = [],
       Quantity = 3, Unit = [], Amount = 6, Status = ''due''\<rparr>,
      \<lparr>DateAD = ''2024-01-02'', Customer = ''ALICE'', Product = ''Rice'',
       Category = ''Grains'', Quantity = 1, Unit = ''kg'', Amount = 1, Status = ''PAID''\<rparr>]"

text \<open>
  The controller at mount, the controller after the first effect run in offline mode
  (which spends the first-sync guard), and three edits within one debounce window.
\<close>

definition ctl_init :: sync_ctl where
  "ctl_init = \<lparr>firstSync = True, timer = None, flushes = []\<rparr>"

definition ctl0 :: sync_ctl where
  "ctl0 = syncEffect None True 0 store0 ctl_init"

definition edits0 :: "(real \<times> app_state) list" where
  "edits0 = [(10, store_sold), (300, store_deleted), (900, store0)]"

section \<open>Auxiliary facts\<close>

lemma find_Some_mem: "find P xs = Some x \<Longrightarrow> x \<in> set xs \<and> P x"
  by (induction xs) (auto split: if_splits)

section \<open>Stock conservation\<close>

lemma stock_list_map:
  assumes "\<And>p. product_id (f p) = product_id p"
    and "\<And>p. product_id p = pid \<Longrightarrow> currentStock (f p) = g (currentStock p)"
  shows "map currentStock (filter (\<lambda>p. product_id p = pid) (map f ps))
           = map g (map currentStock (filter (\<lambda>p. product_id p = pid) ps))"
  by (induction ps) (simp_all add: assms)

lemma stocks_map:
  assumes "\<And>p. product_id (f p) = product_id p"
    and "\<And>p. product_id p = pid \<Longrightarrow> currentStock (f p) = g (currentStock p)"
  shows "stocks pid (st\<lparr>products := map f (products st)\<rparr>) = map g (stocks pid st)"
  using stock_list_map [of f pid g "products st", OF assms] by (simp add: stocks_def)

lemma stocks_addSale:
  "stocks pid (addSale env s st)
     = map (\<lambda>c. if productId s = pid then max 0 (c - quantity s) else c) (stocks pid st)"
proof -
  have "stocks pid (addSale env s st)
          = stocks pid (st\<lparr>products :=
              map (\<lambda>prod. if product_id prod = productId s
                     then prod\<lparr>currentStock := max 0 (currentStock prod - quantity s)\<rparr>
                     else prod) (products st)\<rparr>)"
    by (simp add: addSale_def recordActivity_def Let_def stocks_def)
  also have "\<dots> = map (\<lambda>c. if productId s = pid then max 0 (c - quantity s) else c)
                     (stocks pid st)"
    by (rule stocks_map) auto
  finally show ?thesis .
qed

lemma stocks_updateSale:
  assumes "find (\<lambda>x. sale_id x = sale_id s) (sales st) = Some old"
  shows "stocks pid (updateSale env s st)
     = map (\<lambda>c. if productId s = pid
                then max 0 ((if productId old = pid then c + quantity old else c) - quantity s)
                else if productId old = pid then c + quantity old else c) (stocks pid st)"
proof -
  let ?f1 = "\<lambda>p. if product_id p = productId old
                  then p\<lparr>currentStock := currentStock p + quantity old\<rparr> else p"
  let ?f2 = "\<lambda>p. if product_id p = productId s
                  then p\<lparr>currentStock := max 0 (currentStock p - quantity s)\<rparr> else p"
  let ?g1 = "\<lambda>c. if productId old = pid then c + quantity old else c"
  let ?g2 = "\<lambda>c. if productId s = pid then max 0 (c - quantity s) else c"
  have "products (updateSale env s st) = map ?f2 (map ?f1 (products st))"
    using assms by (simp add: updateSale_def recordActivity_def Let_def)
  then have "stocks pid (updateSale env s st)
          = map currentStock (filter (\<lambda>p. product_id p = pid) (map ?f2 (map ?f1 (products st))))"
    by (simp add: stocks_def)
  also have "\<dots> = map ?g2 (map currentStock
                       (filter (\<lambda>p. product_id p = pid) (map ?f1 (products st))))"
    by (rule stock_list_map) auto
  also have "map currentStock (filter (\<lambda>p. product_id p = pid) (map ?f1 (products st)))
               = map ?g1 (stocks pid st)"
    unfolding stocks_def by (rule stock_list_map) auto
  finally show ?thesis by auto
qed

lemma updateSale_not_found:
  "find (\<lambda>x. sale_id x = sale_id s) (sales st) = None \<Longrightarrow> updateSale env s st = st"
  by (simp add: updateSale_def)

lemma stocks_deleteSale: "stocks pid (deleteSale env sid st) = stocks pid st"
  by (simp add: deleteSale_def recordActivity_def Let_def stocks_def split: option.splits)

lemma stocks_restoreSale:
  assumes "metadata lg = Some s" "\<not> list_ex (\<lambda>x. sale_id x = sale_id s) (sales st)"
  shows "stocks pid (snd (restoreSale env lg st))
     = map (\<lambda>c. if productId s = pid then max 0 (c - quantity s) else c) (stocks pid st)"
proof -
  have "stocks pid (snd (restoreSale env lg st))
          = stocks pid (st\<lparr>products :=
              map (\<lambda>p. if product_id p = productId s
                     then p\<lparr>currentStock := max 0 (currentStock p - quantity s)\<rparr>
                     else p) (products st)\<rparr>)"
    using assms by (simp add: restoreSale_def recordActivity_def Let_def stocks_def)
  also have "\<dots> = map (\<lambda>c. if productId s = pid then max 0 (c - quantity s) else c)
                     (stocks pid st)"
    by (rule stocks_map) auto
  finally show ?thesis .
qed

lemma restoreSale_skip:
  "metadata lg = None
     \<or> (\<exists>s. metadata lg = Some s \<and> list_ex (\<lambda>x. sale_id x = sale_id s) (sales st))
    \<Longrightarrow> snd (restoreSale env lg st) = st"
  by (auto simp add: restoreSale_def)

lemma charged_Cons:
  "charged pid (s # L) = (if productId s = pid then quantity s else 0) + charged pid L"
  by (simp add: charged_def)

lemma charged_remove1:
  "old \<in> set L \<Longrightarrow>
     charged pid (remove1 old L)
       = charged pid L - (if productId old = pid then quantity old else 0)"
  by (induction L) (auto simp add: charged_def)

lemma sales_addSale: "sales (addSale env s st) = s # sales st"
  by (simp add: addSale_def recordActivity_def Let_def)

lemma sales_updateSale:
  "find (\<lambda>x. sale_id x = sale_id s) (sales st) = Some old \<Longrightarrow>
     sales (updateSale env s st) = map (\<lambda>x. if sale_id x = sale_id s then s else x) (sales st)"
  by (simp add: updateSale_def recordActivity_def Let_def)

lemma sales_deleteSale:
  "sales (deleteSale env sid st) = filter (\<lambda>x. sale_id x \<noteq> sid) (sales st)"
  by (simp add: deleteSale_def recordActivity_def Let_def split: option.splits)

lemma sales_restoreSale:
  "metadata lg = Some s \<Longrightarrow> \<not> list_ex (\<lambda>x. sale_id x = sale_id s) (sales st) \<Longrightarrow>
     sales (snd (restoreSale env lg st)) = s # sales st"
  by (simp add: restoreSale_def recordActivity_def Let_def)

text \<open>Every stored sale stays on the ledger.\<close>

lemma ledger_covers_step:
  assumes "set (sales st) \<subseteq> set L"
  shows "set (sales (apply_sale_op op st)) \<subseteq> set (ledger_step op st L)"
proof (cases op)
  case (AddSale env s)
  then show ?thesis using assms by (auto simp add: sales_addSale)
next
  case (UpdateSale env s)
  show ?thesis
  proof (cases "find (\<lambda>x. sale_id x = sale_id s) (sales st)")
    case None
    then show ?thesis using assms UpdateSale by (simp add: updateSale_not_found)
  next
    case (Some old)
    have old: "sale_id old = sale_id s" using find_Some_mem [OF Some] by simp
    have "x \<in> set (s # remove1 old L)"
      if "x \<in> set (map (\<lambda>x. if sale_id x = sale_id s then s else x) (sales st))" for x
    proof (cases "x = s")
      case True
      then show ?thesis by simp
    next
      case False
      with that have "x \<in> set (sales st)" "sale_id x \<noteq> sale_id s"
        by (auto split: if_splits)
      with old assms have "x \<in> set L" "x \<noteq> old" by auto
      then show ?thesis by simp
    qed
    then show ?thesis using UpdateSale Some by (auto simp add: sales_updateSale [OF Some])
  qed
next
  case (DeleteSale env sid)
  then show ?thesis using assms by (auto simp add: sales_deleteSale)
next
  case (RestoreSale env lg)
  show ?thesis
  proof (cases "metadata lg")
    case None
    then show ?thesis using assms RestoreSale by (simp add: restoreSale_skip)
  next
    case (Some s)
    show ?thesis
    proof (cases "list_ex (\<lambda>x. sale_id x = sale_id s) (sales st)")
      case True
      then show ?thesis using assms RestoreSale Some by (simp add: restoreSale_skip)
    next
      case False
      then show ?thesis
        using assms RestoreSale Some by (auto simp add: sales_restoreSale [OF Some False])
    qed
  qed
qed

text \<open>Stored quantities stay positive.\<close>

lemma positive_step:
  assumes "list_all (\<lambda>s. 0 < quantity s) (sales st)" "positive_quantity op"
  shows "list_all (\<lambda>s. 0 < quantity s) (sales (apply_sale_op op st))"
proof (cases op)
  case (AddSale env s)
  then show ?thesis using assms by (simp add: sales_addSale positive_quantity_def)
next
  case (UpdateSale env s)
  show ?thesis
  proof (cases "find (\<lambda>x. sale_id x = sale_id s) (sales st)")
    case None
    then show ?thesis using assms UpdateSale by (simp add: updateSale_not_found)
  next
    case (Some old)
    then show ?thesis
      using assms UpdateSale
      by (auto simp add: sales_updateSale [OF Some] positive_quantity_def list_all_iff)
  qed
next
  case (DeleteSale env sid)
  then show ?thesis using assms by (auto simp add: sales_deleteSale list_all_iff)
next
  case (RestoreSale env lg)
  show ?thesis
  proof (cases "metadata lg")
    case None
    then show ?thesis using assms RestoreSale by (simp add: restoreSale_skip)
  next
    case (Some s)
    show ?thesis
    proof (cases "list_ex (\<lambda>x. sale_id x = sale_id s) (sales st)")
      case True
      then show ?thesis using assms RestoreSale Some by (simp add: restoreSale_skip)
    next
      case False
      then show ?thesis
        using assms RestoreSale Some
        by (simp add: sales_restoreSale [OF Some False] positive_quantity_def)
    qed
  qed
qed

text \<open>
  One operation, one stock figure: the stock falls by no more than the ledger's charge
  grows, by exactly that much when the operation is unclamped, and stays non-negative.
\<close>

lemma step_stock:
  assumes cover: "set (sales st) \<subseteq> set L"
  shows "list_all2
           (\<lambda>c c'. c - (charged pid (ledger_step op st L) - charged pid L) \<le> c'
              \<and> (unclamped_step pid op st \<longrightarrow>
                   c' = c - (charged pid (ledger_step op st L) - charged pid L))
              \<and> (0 \<le> c \<and> list_all (\<lambda>s. 0 < quantity s) (sales st) \<longrightarrow> 0 \<le> c'))
           (stocks pid st) (stocks pid (apply_sale_op op st))"
proof (cases op)
  case (AddSale env s)
  then show ?thesis
    by (auto simp add: stocks_addSale list_all2_map2 list_all2_same charged_Cons list_all_iff)
next
  case (UpdateSale env s)
  show ?thesis
  proof (cases "find (\<lambda>x. sale_id x = sale_id s) (sales st)")
    case None
    then show ?thesis using UpdateSale by (simp add: updateSale_not_found list_all2_same)
  next
    case (Some old)
    have mem: "old \<in> set (sales st)" using find_Some_mem [OF Some] by simp
    then have "old \<in> set L" using cover by auto
    note rm = charged_remove1 [OF this, of pid]
    have q: "list_all (\<lambda>s. 0 < quantity s) (sales st) \<Longrightarrow> 0 < quantity old"
      using mem by (simp add: list_all_iff)
    show ?thesis
      using UpdateSale Some q
      by (auto simp add: stocks_updateSale [OF Some] list_all2_map2 list_all2_same charged_Cons
          rm list_all_iff)
  qed
next
  case (DeleteSale env sid)
  then show ?thesis by (simp add: stocks_deleteSale list_all2_same)
next
  case (RestoreSale env lg)
  show ?thesis
  proof (cases "metadata lg")
    case None
    then show ?thesis using RestoreSale by (simp add: restoreSale_skip list_all2_same)
  next
    case (Some s)
    show ?thesis
    proof (cases "list_ex (\<lambda>x. sale_id x = sale_id s) (sales st)")
      case True
      then show ?thesis using RestoreSale Some by (simp add: restoreSale_skip list_all2_same)
    next
      case False
      then show ?thesis
        using RestoreSale Some
        by (auto simp add: stocks_restoreSale [OF Some False] list_all2_map2 list_all2_same
            charged_Cons list_all_iff)
    qed
  qed
qed

lemma run_stock:
  assumes "set (sales st) \<subseteq> set L"
    and "list_all (\<lambda>s. 0 < quantity s) (sales st)"
    and "list_all positive_quantity ops"
  shows "list_all2
           (\<lambda>c c'. c - (charged pid (ledger ops st L) - charged pid L) \<le> c'
              \<and> (unclamped pid ops st \<longrightarrow>
                   c' = c - (charged pid (ledger ops st L) - charged pid L))
              \<and> (0 \<le> c \<longrightarrow> 0 \<le> c'))
           (stocks pid st) (stocks pid (run_sale_ops ops st))"
  using assms
proof (induction ops arbitrary: st L)
  case Nil
  show ?case by (simp add: list_all2_same)
next
  case (Cons op ops)
  let ?st = "apply_sale_op op st"
  let ?L = "ledger_step op st L"
  have cover: "set (sales ?st) \<subseteq> set ?L"
    using Cons.prems(1) by (rule ledger_covers_step)
  have pos: "list_all (\<lambda>s. 0 < quantity s) (sales ?st)"
    using Cons.prems(2,3) by (simp add: positive_step)
  have rest: "list_all positive_quantity ops"
    using Cons.prems(3) by simp
  note one = step_stock [OF Cons.prems(1), of pid op]
  note more = Cons.IH [OF cover pos rest]
  show ?case
    unfolding run_sale_ops.simps ledger.simps unclamped.simps
    using one more
  proof (rule list_all2_trans [rotated])
    fix a b c
    assume "a - (charged pid ?L - charged pid L) \<le> b
        \<and> (unclamped_step pid op st \<longrightarrow> b = a - (charged pid ?L - charged pid L))
        \<and> (0 \<le> a \<and> list_all (\<lambda>s. 0 < quantity s) (sales st) \<longrightarrow> 0 \<le> b)"
      and "b - (charged pid (ledger ops ?st ?L) - charged pid ?L) \<le> c
        \<and> (unclamped pid ops ?st \<longrightarrow>
             c = b - (charged pid (ledger ops ?st ?L) - charged pid ?L))
        \<and> (0 \<le> b \<longrightarrow> 0 \<le> c)"
    then show "a - (charged pid (ledger ops ?st ?L) - charged pid L) \<le> c
        \<and> (unclamped_step pid op st \<and> unclamped pid ops ?st \<longrightarrow>
             c = a - (charged pid (ledger ops ?st ?L) - charged pid L))
        \<and> (0 \<le> a \<longrightarrow> 0 \<le> c)"
      using Cons.prems(2) by auto
  qed
qed

text \<open>The change of one operation is exact precisely when the operation is unclamped.\<close>

lemma step_exact_iff:
  assumes cover: "set (sales st) \<subseteq> set L"
  shows "unclamped_step pid op st
           = list_all2 (\<lambda>c c'. c' = c - (charged pid (ledger_step op st L) - charged pid L))
               (stocks pid st) (stocks pid (apply_sale_op op st))"
proof (cases op)
  case (AddSale env s)
  then show ?thesis
    by (auto simp add: stocks_addSale list_all2_map2 list_all2_same charged_Cons list_all_iff)
next
  case (UpdateSale env s)
  show ?thesis
  proof (cases "find (\<lambda>x. sale_id x = sale_id s) (sales st)")
    case None
    then show ?thesis using UpdateSale by (simp add: updateSale_not_found list_all2_same)
  next
    case (Some old)
    have "old \<in> set L" using find_Some_mem [OF Some] cover by auto
    note rm = charged_remove1 [OF this, of pid]
    show ?thesis
      using UpdateSale Some
      by (auto simp add: stocks_updateSale [OF Some] list_all2_map2 list_all2_same charged_Cons
          rm list_all_iff)
  qed
next
  case (DeleteSale env sid)
  then show ?thesis by (simp add: stocks_deleteSale list_all2_same)
next
  case (RestoreSale env lg)
  show ?thesis
  proof (cases "metadata lg")
    case None
    then show ?thesis using RestoreSale by (simp add: restoreSale_skip list_all2_same)
  next
    case (Some s)
    show ?thesis
    proof (cases "list_ex (\<lambda>x. sale_id x = sale_id s) (sales st)")
      case True
      then show ?thesis using RestoreSale Some by (simp add: restoreSale_skip list_all2_same)
    next
      case False
      then show ?thesis
        using RestoreSale Some
        by (auto simp add: stocks_restoreSale [OF Some False] list_all2_map2 list_all2_same
            charged_Cons list_all_iff)
    qed
  qed
qed

lemma step_lower:
  assumes "set (sales st) \<subseteq> set L"
  shows "list_all2 (\<lambda>c c'. c - (charged pid (ledger_step op st L) - charged pid L) \<le> c')
           (stocks pid st) (stocks pid (apply_sale_op op st))"
  using step_stock [OF assms, of pid op] by (rule list_all2_mono) simp

lemma run_cover:
  "set (sales st) \<subseteq> set L \<Longrightarrow> set (sales (run_sale_ops ops st)) \<subseteq> set (ledger ops st L)"
proof (induction ops arbitrary: st L)
  case Nil
  then show ?case by simp
next
  case (Cons op ops)
  show ?case
    unfolding run_sale_ops.simps ledger.simps
    by (rule Cons.IH) (rule ledger_covers_step [OF Cons.prems])
qed

lemma run_positive:
  "list_all (\<lambda>s. 0 < quantity s) (sales st) \<Longrightarrow> list_all positive_quantity ops \<Longrightarrow>
     list_all (\<lambda>s. 0 < quantity s) (sales (run_sale_ops ops st))"
proof (induction ops arbitrary: st)
  case Nil
  then show ?case by simp
next
  case (Cons op ops)
  then show ?case by (simp add: positive_step)
qed

lemma run_lower:
  assumes "set (sales st) \<subseteq> set L"
  shows "list_all2 (\<lambda>c c'. c - (charged pid (ledger ops st L) - charged pid L) \<le> c')
           (stocks pid st) (stocks pid (run_sale_ops ops st))"
  using assms
proof (induction ops arbitrary: st L)
  case Nil
  show ?case by (simp add: list_all2_same)
next
  case (Cons op ops)
  note one = step_lower [OF Cons.prems, of pid op]
  note more = Cons.IH [OF ledger_covers_step [OF Cons.prems, of op]]
  show ?case
    unfolding run_sale_ops.simps ledger.simps
    using one more by (rule list_all2_trans [rotated]) simp
qed

text \<open>
  Over a sequence the change is exact precisely when every operation is unclamped: each
  step can only fall short of its charge, so an exact total forces every step to be exact.
\<close>

lemma run_exact_iff:
  assumes "set (sales st) \<subseteq> set L"
  shows "unclamped pid ops st
           = list_all2 (\<lambda>c c'. c' = c - (charged pid (ledger ops st L) - charged pid L))
               (stocks pid st) (stocks pid (run_sale_ops ops st))"
  using assms
proof (induction ops arbitrary: st L)
  case Nil
  show ?case by (simp add: list_all2_same)
next
  case (Cons op ops)
  let ?st = "apply_sale_op op st"
  let ?L = "ledger_step op st L"
  let ?xs = "stocks pid st"
  let ?ys = "stocks pid ?st"
  let ?zs = "stocks pid (run_sale_ops ops ?st)"
  let ?d1 = "charged pid ?L - charged pid L"
  let ?d2 = "charged pid (ledger ops ?st ?L) - charged pid ?L"
  have cover: "set (sales ?st) \<subseteq> set ?L"
    using Cons.prems by (rule ledger_covers_step)
  have l1: "list_all2 (\<lambda>c c'. c - ?d1 \<le> c') ?xs ?ys"
    using Cons.prems by (rule step_lower)
  have l2: "list_all2 (\<lambda>c c'. c - ?d2 \<le> c') ?ys ?zs"
    using cover by (rule run_lower)
  have e1: "unclamped_step pid op st = list_all2 (\<lambda>c c'. c' = c - ?d1) ?xs ?ys"
    using Cons.prems by (rule step_exact_iff)
  have e2: "unclamped pid ops ?st = list_all2 (\<lambda>c c'. c' = c - ?d2) ?ys ?zs"
    using cover by (rule Cons.IH)
  have len: "length ?xs = length ?ys" "length ?ys = length ?zs"
    using l1 l2 by (simp_all add: list_all2_lengthD)
  have "(list_all2 (\<lambda>c c'. c' = c - ?d1) ?xs ?ys \<and> list_all2 (\<lambda>c c'. c' = c - ?d2) ?ys ?zs)
          = list_all2 (\<lambda>c c'. c' = c - (?d1 + ?d2)) ?xs ?zs"
  proof
    assume "list_all2 (\<lambda>c c'. c' = c - ?d1) ?xs ?ys
              \<and> list_all2 (\<lambda>c c'. c' = c - ?d2) ?ys ?zs"
    then show "list_all2 (\<lambda>c c'. c' = c - (?d1 + ?d2)) ?xs ?zs"
      by (auto simp add: list_all2_conv_all_nth)
  next
    assume a: "list_all2 (\<lambda>c c'. c' = c - (?d1 + ?d2)) ?xs ?zs"
    have "?ys ! i = ?xs ! i - ?d1 \<and> ?zs ! i = ?ys ! i - ?d2" if "i < length ?xs" for i
    proof -
      have "?xs ! i - ?d1 \<le> ?ys ! i"
        using l1 that by (simp add: list_all2_conv_all_nth)
      moreover have "?ys ! i - ?d2 \<le> ?zs ! i"
        using l2 that len by (simp add: list_all2_conv_all_nth)
      moreover have "?zs ! i = ?xs ! i - (?d1 + ?d2)"
        using a that by (simp add: list_all2_conv_all_nth)
      ultimately show ?thesis by linarith
    qed
    then show "list_all2 (\<lambda>c c'. c' = c - ?d1) ?xs ?ys
                 \<and> list_all2 (\<lambda>c c'. c' = c - ?d2) ?ys ?zs"
      using len by (simp add: list_all2_conv_all_nth)
  qed
  moreover have "?d1 + ?d2 = charged pid (ledger ops ?st ?L) - charged pid L" by simp
  ultimately show ?case
    unfolding run_sale_ops.simps ledger.simps unclamped.simps e1 e2 by simp
qed

text \<open>
  One operation on a stock that is not negative: the new stock is the old one minus the
  charge of the operation, floored at 0.
\<close>

lemma step_floor:
  assumes cover: "set (sales st) \<subseteq> set L"
    and pos: "list_all (\<lambda>s. 0 < quantity s) (sales st)"
    and nonneg: "list_all (\<lambda>c. 0 \<le> c) (stocks pid st)"
  shows "list_all2
           (\<lambda>c c'. c' = max 0 (c - (charged pid (ledger_step op st L) - charged pid L)))
           (stocks pid st) (stocks pid (apply_sale_op op st))"
proof (cases op)
  case (AddSale env s)
  then show ?thesis
    using nonneg
    by (auto simp add: stocks_addSale list_all2_map2 list_all2_same charged_Cons list_all_iff)
next
  case (UpdateSale env s)
  show ?thesis
  proof (cases "find (\<lambda>x. sale_id x = sale_id s) (sales st)")
    case None
    then show ?thesis
      using UpdateSale nonneg
      by (auto simp add: updateSale_not_found list_all2_same list_all_iff)
  next
    case (Some old)
    have mem: "old \<in> set (sales st)" using find_Some_mem [OF Some] by simp
    then have "old \<in> set L" using cover by auto
    note rm = charged_remove1 [OF this, of pid]
    have q: "0 < quantity old" using mem pos by (simp add: list_all_iff)
    show ?thesis
      using UpdateSale Some q nonneg
      by (auto simp add: stocks_updateSale [OF Some] list_all2_map2 list_all2_same charged_Cons
          rm list_all_iff)
  qed
next
  case (DeleteSale env sid)
  then show ?thesis
    using nonneg by (auto simp add: stocks_deleteSale list_all2_same list_all_iff)
next
  case (RestoreSale env lg)
  show ?thesis
  proof (cases "metadata lg")
    case None
    then show ?thesis
      using RestoreSale nonneg by (auto simp add: restoreSale_skip list_all2_same list_all_iff)
  next
    case (Some s)
    show ?thesis
    proof (cases "list_ex (\<lambda>x. sale_id x = sale_id s) (sales st)")
      case True
      then show ?thesis
        using RestoreSale Some nonneg
        by (auto simp add: restoreSale_skip list_all2_same list_all_iff)
    next
      case False
      then show ?thesis
        using RestoreSale Some nonneg
        by (auto simp add: stocks_restoreSale [OF Some False] list_all2_map2 list_all2_same
            charged_Cons list_all_iff)
    qed
  qed
qed

lemma run_sale_ops_snoc:
  "run_sale_ops (ops @ [op]) st = apply_sale_op op (run_sale_ops ops st)"
  by (induction ops arbitrary: st) simp_all

lemma ledger_snoc:
  "ledger (ops @ [op]) st L = ledger_step op (run_sale_ops ops st) (ledger ops st L)"
  by (induction ops arbitrary: st L) simp_all

text \<open>
  Claim C1, as stated, fails. The rice stock starts at 3 and the store has no sales. In
  \<open>ops_floored\<close> a sale of 5 is added, which floors the stock at 0, and is then updated to
  1, which gives 0 + 5 - 1 = 4. In \<open>ops_plain\<close> a sale of 1 is added, which gives 2. Both
  histories end with the same sale of quantity 1 charged, so the claim gives 3 - 1 = 2 for
  both, floored or not; and no formula in the starting stock and the charged sales alone
  can give both 4 and 2.
\<close>

theorem stock_conservation_counterexample:
  "sales store0 = []
   \<and> stocks ''P-rice'' store0 = [3]
   \<and> ledger ops_floored store0 (sales store0) = [sale_rice 1]
   \<and> charged ''P-rice'' (ledger ops_floored store0 (sales store0)) = 1
   \<and> stocks ''P-rice'' (run_sale_ops ops_floored store0) = [4]
   \<and> (4::real) \<noteq> 3 - 1
   \<and> (4::real) \<noteq> max 0 (3 - 1)
   \<and> \<not> unclamped ''P-rice'' ops_floored store0
   \<and> ledger ops_plain store0 (sales store0) = [sale_rice 1]
   \<and> stocks ''P-rice'' (run_sale_ops ops_plain store0) = [2]"
  by (simp add: ops_floored_def ops_plain_def store0_def addSale_def updateSale_def
      recordActivity_def Let_def sale_rice_def kale_def rice_def alice_def bob_def stocks_def
      env0_def env1_def productNameOr_def customerNameOr_def orElse_def charged_def
      paymentStatusText_def)

text \<open>
  Claim C1, amended. Take any store whose sales have positive quantities and in which the
  stock of the product \<open>pid\<close> is not negative, and any sequence of \<^verbatim>\<open>addSale\<close>,
  \<^verbatim>\<open>updateSale\<close>, \<^verbatim>\<open>deleteSale\<close> and \<^verbatim>\<open>restoreSale\<close> calls whose sales have positive
  quantities. Let the ledger start as the stored sales and follow \<open>ledger_step\<close>. Then
  after the sequence the stock is not negative, and it is at least the starting stock
  minus the growth of the quantity that the ledger charges to the product. It is exactly
  that if and only if no decrement of the sequence was cut off by the floor at 0. (With no
  sales stored at the start the growth is the charged quantity itself.) And whatever
  operation \<open>op\<close> comes next, the stock after it is the stock before it minus what \<open>op\<close>
  adds to the charge, floored at 0: a decrement that would go below 0 leaves exactly 0.
  Every prefix of a sequence is such a sequence, so this holds at every intermediate step.
\<close>

theorem stock_conservation_floored:
  assumes "list_all (\<lambda>s. 0 < quantity s) (sales st)"
    and "list_all positive_quantity ops"
    and "list_all (\<lambda>c. 0 \<le> c) (stocks pid st)"
  shows "list_all (\<lambda>c. 0 \<le> c) (stocks pid (run_sale_ops ops st))
       \<and> list_all2
           (\<lambda>S0 c. S0 - (charged pid (ledger ops st (sales st)) - charged pid (sales st)) \<le> c)
           (stocks pid st) (stocks pid (run_sale_ops ops st))
       \<and> unclamped pid ops st
           = list_all2
               (\<lambda>S0 c. c = S0 - (charged pid (ledger ops st (sales st)) - charged pid (sales st)))
               (stocks pid st) (stocks pid (run_sale_ops ops st))
       \<and> list_all2
           (\<lambda>c c'. c' = max 0 (c - (charged pid (ledger (ops @ [op]) st (sales st))
                                      - charged pid (ledger ops st (sales st))))
              \<and> (c - (charged pid (ledger (ops @ [op]) st (sales st))
                        - charged pid (ledger ops st (sales st))) < 0 \<longrightarrow> c' = 0))
           (stocks pid (run_sale_ops ops st)) (stocks pid (run_sale_ops (ops @ [op]) st))"
proof -
  note run = run_stock [OF subset_refl assms(1,2), of pid]
  have nonneg: "list_all (\<lambda>c. 0 \<le> c) (stocks pid (run_sale_ops ops st))"
    using run assms(3)
    by (auto simp add: list_all2_conv_all_nth list_all_length)
  have lower: "list_all2
           (\<lambda>S0 c. S0 - (charged pid (ledger ops st (sales st)) - charged pid (sales st)) \<le> c)
           (stocks pid st) (stocks pid (run_sale_ops ops st))"
    by (rule run_lower) simp
  have exact: "unclamped pid ops st
           = list_all2
               (\<lambda>S0 c. c = S0 - (charged pid (ledger ops st (sales st)) - charged pid (sales st)))
               (stocks pid st) (stocks pid (run_sale_ops ops st))"
    by (rule run_exact_iff) simp
  have cover: "set (sales (run_sale_ops ops st)) \<subseteq> set (ledger ops st (sales st))"
    by (rule run_cover) simp
  have pos: "list_all (\<lambda>s. 0 < quantity s) (sales (run_sale_ops ops st))"
    using assms(1,2) by (rule run_positive)
  have "list_all2
           (\<lambda>c c'. c' = max 0 (c - (charged pid (ledger (ops @ [op]) st (sales st))
                                      - charged pid (ledger ops st (sales st)))))
           (stocks pid (run_sale_ops ops st)) (stocks pid (run_sale_ops (ops @ [op]) st))"
    unfolding run_sale_ops_snoc ledger_snoc by (rule step_floor [OF cover pos nonneg])
  then have floor: "list_all2
           (\<lambda>c c'. c' = max 0 (c - (charged pid (ledger (ops @ [op]) st (sales st))
                                      - charged pid (ledger ops st (sales st))))
              \<and> (c - (charged pid (ledger (ops @ [op]) st (sales st))
                        - charged pid (ledger ops st (sales st))) < 0 \<longrightarrow> c' = 0))
           (stocks pid (run_sale_ops ops st)) (stocks pid (run_sale_ops (ops @ [op]) st))"
    by (rule list_all2_mono) simp
  from nonneg lower exact floor show ?thesis by (intro conjI)
qed

text \<open>
  The scenario \<open>ops_scenario\<close> on the kale stock of 10: the stock goes 6, 6, 2, 3, no
  decrement is floored, and the ledger ends with the sale charged twice over, for 3 and for
  4. The theorem gives the final stock 10 - 7 = 3. A further sale of 9 raises the charge
  to 16 and is cut off: the theorem gives max 0 (3 - 9) = 0.
\<close>

theorem stock_conservation_floored_witness:
  "list_all (\<lambda>s. 0 < quantity s) (sales store0)
   \<and> list_all positive_quantity ops_scenario
   \<and> list_all (\<lambda>c. 0 \<le> c) (stocks ''P-kale'' store0)
   \<and> unclamped ''P-kale'' ops_scenario store0
   \<and> stocks ''P-kale'' store0 = [10]
   \<and> charged ''P-kale'' (sales store0) = 0
   \<and> ledger ops_scenario store0 (sales store0) = [sale_kale 3, sale_kale 4]
   \<and> charged ''P-kale'' (ledger ops_scenario store0 (sales store0)) = 7
   \<and> stocks ''P-kale'' (run_sale_ops ops_scenario store0) = [3]
   \<and> list_all (\<lambda>c. 0 \<le> c) (stocks ''P-kale'' (run_sale_ops ops_scenario store0))
   \<and> charged ''P-kale'' (ledger (ops_scenario @ [op_oversell]) store0 (sales store0)) = 16
   \<and> stocks ''P-kale'' (run_sale_ops (ops_scenario @ [op_oversell]) store0) = [0]"
proof -
  have h1: "list_all (\<lambda>s. 0 < quantity s) (sales store0)"
    by (simp add: store0_def)
  have h2: "list_all positive_quantity ops_scenario"
    by (simp add: ops_scenario_def positive_quantity_def sale_kale_def deleted_log_def)
  have h3: "list_all (\<lambda>c. 0 \<le> c) (stocks ''P-kale'' store0)"
    by (simp add: stocks_def store0_def kale_def rice_def)
  have c: "unclamped ''P-kale'' ops_scenario store0
     \<and> stocks ''P-kale'' store0 = [10]
     \<and> charged ''P-kale'' (sales store0) = 0
     \<and> charged ''P-kale'' (ledger ops_scenario store0 (sales store0)) = 7
     \<and> charged ''P-kale'' (ledger (ops_scenario @ [op_oversell]) store0 (sales store0)) = 16"
    by (simp add: ops_scenario_def op_oversell_def store0_def addSale_def deleteSale_def
        restoreSale_def updateSale_def recordActivity_def Let_def sale_kale_def kale_def
        rice_def alice_def bob_def stocks_def deleted_log_def env0_def env1_def env2_def
        productNameOr_def customerNameOr_def orElse_def charged_def paymentStatusText_def)
  have l: "ledger ops_scenario store0 (sales store0) = [sale_kale 3, sale_kale 4]"
    by (simp add: ops_scenario_def store0_def addSale_def deleteSale_def restoreSale_def
        updateSale_def recordActivity_def Let_def sale_kale_def deleted_log_def)
  note t = stock_conservation_floored [OF h1 h2 h3, of op_oversell]
  note t1 = t [THEN conjunct1]
  note t3 = t [THEN conjunct2, THEN conjunct2, THEN conjunct1]
  note t4 = t [THEN conjunct2, THEN conjunct2, THEN conjunct2]
  from t3 c have "list_all2 (\<lambda>S0 c. c = S0 - (7 - 0)) [10]
                   (stocks ''P-kale'' (run_sale_ops ops_scenario store0))"
    by simp
  then have f: "stocks ''P-kale'' (run_sale_ops ops_scenario store0) = [3]"
    by (auto simp add: list_all2_Cons1)
  from t4 c f
  have "list_all2 (\<lambda>c c'. c' = max 0 (c - (16 - 7)) \<and> (c - (16 - 7) < 0 \<longrightarrow> c' = 0))
          [3] (stocks ''P-kale'' (run_sale_ops (ops_scenario @ [op_oversell]) store0))"
    by simp
  then have g: "stocks ''P-kale'' (run_sale_ops (ops_scenario @ [op_oversell]) store0) = [0]"
    by (auto simp add: list_all2_Cons1)
  show ?thesis
    using h1 h2 h3 c l f g t1 by simp
qed

section \<open>Update reconciliation\<close>

text \<open>
  Claim C2. Let \<open>old\<close> be the sale that \<^verbatim>\<open>sales.find\<close> returns for the id of the updated
  sale (the stored sale with that id; ids identify sales). Then \<^verbatim>\<open>updateSale\<close> leaves the
  products collection as long as it was, and every product record in it is the record
  before the update with a new stock: increased by the old quantity when the record is the
  old sale's product and not the new sale's, decreased by the new quantity and floored at 0
  when it is the new sale's product and not the old sale's, both when it is the product of
  both, and unchanged otherwise. Every stored sale with the id is replaced by the new
  record, and one log with action Updated is put in front of the logs.
\<close>

theorem updateSale_reconciliation:
  assumes "find (\<lambda>s. sale_id s = sale_id upd) (sales st) = Some old"
  shows "length (products (updateSale env upd st)) = length (products st)
       \<and> (\<forall>i < length (products st).
             (product_id (products st ! i) = productId old
                \<and> product_id (products st ! i) \<noteq> productId upd \<longrightarrow>
              products (updateSale env upd st) ! i =
                (products st ! i)\<lparr>currentStock :=
                   currentStock (products st ! i) + quantity old\<rparr>)
           \<and> (product_id (products st ! i) = productId upd
                \<and> product_id (products st ! i) \<noteq> productId old \<longrightarrow>
              products (updateSale env upd st) ! i =
                (products st ! i)\<lparr>currentStock :=
                   max 0 (currentStock (products st ! i) - quantity upd)\<rparr>)
           \<and> (product_id (products st ! i) = productId upd
                \<and> product_id (products st ! i) = productId old \<longrightarrow>
              products (updateSale env upd st) ! i =
                (products st ! i)\<lparr>currentStock :=
                   max 0 (currentStock (products st ! i) + quantity old - quantity upd)\<rparr>)
           \<and> (product_id (products st ! i) \<noteq> productId upd
                \<and> product_id (products st ! i) \<noteq> productId old \<longrightarrow>
              products (updateSale env upd st) ! i = products st ! i))
       \<and> sales (updateSale env upd st)
           = map (\<lambda>s. if sale_id s = sale_id upd then upd else s) (sales st)
       \<and> (\<exists>l. logs (updateSale env upd st) = l # logs st \<and> action l = Updated)"
  using assms by (auto simp add: updateSale_def recordActivity_def Let_def)

text \<open>
  The specification's own example: a sale of 2 kale is reassigned to 5 rice, with 10 kale
  and 3 rice in stock. Kale goes up to 12 and rice is floored at 0.
\<close>

theorem updateSale_reconciliation_witness:
  "find (\<lambda>s. sale_id s = sale_id (sale_rice 5)) (sales store_kale2) = Some (sale_kale 2)
   \<and> length (products (updateSale env1 (sale_rice 5) store_kale2)) = length (products store_kale2)
   \<and> map currentStock (products store_kale2) = [10, 3]
   \<and> map currentStock (products (updateSale env1 (sale_rice 5) store_kale2)) = [12, 0]
   \<and> sales (updateSale env1 (sale_rice 5) store_kale2) = [sale_rice 5]
   \<and> map action (logs (updateSale env1 (sale_rice 5) store_kale2)) = [Updated]"
proof -
  have h: "find (\<lambda>s. sale_id s = sale_id (sale_rice 5)) (sales store_kale2) = Some (sale_kale 2)"
    by (simp add: store_kale2_def store0_def sale_kale_def sale_rice_def)
  have c: "map currentStock (products store_kale2) = [10, 3]
     \<and> map currentStock (products (updateSale env1 (sale_rice 5) store_kale2)) = [12, 0]
     \<and> sales (updateSale env1 (sale_rice 5) store_kale2) = [sale_rice 5]
     \<and> map action (logs (updateSale env1 (sale_rice 5) store_kale2)) = [Updated]"
    by (simp add: updateSale_def recordActivity_def Let_def store_kale2_def store0_def
        sale_kale_def sale_rice_def kale_def rice_def)
  show ?thesis
    using h c conjunct1 [OF updateSale_reconciliation [OF h, of env1]] by simp
qed

section \<open>Delete asymmetry\<close>

text \<open>
  Claim C3. Let \<open>s\<close> be the sale that \<^verbatim>\<open>sales.find\<close> returns for the id \<open>sid\<close>. Then
  \<^verbatim>\<open>deleteSale\<close> keeps exactly the sales with another id, so \<open>s\<close> is gone; it puts one
  log in front of the logs, with action Deleted and the whole of \<open>s\<close> as its metadata; and
  it leaves the products collection, hence every stock, as it was.
\<close>

theorem deleteSale_keeps_stock:
  assumes "find (\<lambda>x. sale_id x = sid) (sales st) = Some s"
  shows "sales (deleteSale env sid st) = filter (\<lambda>x. sale_id x \<noteq> sid) (sales st)
       \<and> s \<notin> set (sales (deleteSale env sid st))
       \<and> (\<exists>l. logs (deleteSale env sid st) = l # logs st
               \<and> action l = Deleted \<and> metadata l = Some s)
       \<and> products (deleteSale env sid st) = products st"
  using assms find_Some_mem [OF assms]
  by (simp add: deleteSale_def recordActivity_def Let_def)

text \<open>
  The specification's scenario: 4 of 10 kale were sold, 6 are left; deleting the sale
  leaves 6 and writes the log \<open>deleted_log\<close>.
\<close>

theorem deleteSale_keeps_stock_witness:
  "find (\<lambda>x. sale_id x = ''S-1'') (sales store_sold) = Some (sale_kale 4)
   \<and> sales (deleteSale env1 ''S-1'' store_sold)
       = filter (\<lambda>x. sale_id x \<noteq> ''S-1'') (sales store_sold)
   \<and> sales (deleteSale env1 ''S-1'' store_sold) = []
   \<and> stocks ''P-kale'' store_sold = [6]
   \<and> stocks ''P-kale'' (deleteSale env1 ''S-1'' store_sold) = [6]
   \<and> hd (logs (deleteSale env1 ''S-1'' store_sold)) = deleted_log"
proof -
  have h: "find (\<lambda>x. sale_id x = ''S-1'') (sales store_sold) = Some (sale_kale 4)"
    by (simp add: store_sold_def addSale_def recordActivity_def Let_def store0_def sale_kale_def)
  have c: "sales (deleteSale env1 ''S-1'' store_sold) = []
     \<and> stocks ''P-kale'' store_sold = [6]
     \<and> stocks ''P-kale'' (deleteSale env1 ''S-1'' store_sold) = [6]
     \<and> hd (logs (deleteSale env1 ''S-1'' store_sold)) = deleted_log"
    by (simp add: store_sold_def addSale_def deleteSale_def recordActivity_def Let_def store0_def
        sale_kale_def kale_def rice_def alice_def bob_def stocks_def deleted_log_def env1_def
        productNameOr_def customerNameOr_def orElse_def)
  show ?thesis
    using h c conjunct1 [OF deleteSale_keeps_stock [OF h, of env1]] by simp
qed

section \<open>Restore guard and effect\<close>

text \<open>
  Claim C4. \<^verbatim>\<open>restoreSale\<close> does nothing for a log without metadata. For a log whose
  metadata is the sale \<open>s\<close>: when a stored sale has the id of \<open>s\<close>, it raises the alert and
  returns the store as it was; when none has, it raises no alert, puts \<open>s\<close> in front of the
  sales, deducts the quantity of \<open>s\<close> from the stock of its product, floored at 0, drops the
  logs with the id of the source log and puts one log with action Created in front of the
  rest. A second call with the same log right after such a restore raises the alert and
  returns the store of the first call, so the sale is not inserted twice.
\<close>

theorem restoreSale_guard_and_effect:
  "(metadata lg = None \<longrightarrow> restoreSale env lg st = (None, st))
   \<and> (metadata lg = Some s \<and> list_ex (\<lambda>x. sale_id x = sale_id s) (sales st) \<longrightarrow>
        restoreSale env lg st
          = (Some ''This record is already present in the active ledger.'', st))
   \<and> (metadata lg = Some s \<and> \<not> list_ex (\<lambda>x. sale_id x = sale_id s) (sales st) \<longrightarrow>
        fst (restoreSale env lg st) = None
      \<and> sales (snd (restoreSale env lg st)) = s # sales st
      \<and> products (snd (restoreSale env lg st))
          = map (\<lambda>p. if product_id p = productId s
                   then p\<lparr>currentStock := max 0 (currentStock p - quantity s)\<rparr> else p)
              (products st)
      \<and> (\<exists>l. logs (snd (restoreSale env lg st))
                 = l # filter (\<lambda>x. log_id x \<noteq> log_id lg) (logs st)
               \<and> action l = Created)
      \<and> customers (snd (restoreSale env lg st)) = customers st
      \<and> expenses (snd (restoreSale env lg st)) = expenses st
      \<and> liabilities (snd (restoreSale env lg st)) = liabilities st
      \<and> restoreSale env' lg (snd (restoreSale env lg st))
          = (Some ''This record is already present in the active ledger.'',
             snd (restoreSale env lg st)))"
  by (simp add: restoreSale_def recordActivity_def Let_def)

text \<open>
  The specification's scenario continued: with 6 kale in stock and the sale deleted,
  restoring from \<open>deleted_log\<close> brings the sale back, leaves 2 kale, consumes the log and
  writes a Created log; restoring again alerts and changes nothing. A log without metadata
  is ignored.
\<close>

theorem restoreSale_guard_and_effect_witness:
  "metadata bob_log = None
   \<and> restoreSale env2 bob_log store0 = (None, store0)
   \<and> metadata deleted_log = Some (sale_kale 4)
   \<and> \<not> list_ex (\<lambda>x. sale_id x = sale_id (sale_kale 4)) (sales store_deleted)
   \<and> logs store_deleted = [deleted_log, hd (logs store_sold)]
   \<and> stocks ''P-kale'' store_deleted = [6]
   \<and> fst (restoreSale env2 deleted_log store_deleted) = None
   \<and> sales (snd (restoreSale env2 deleted_log store_deleted)) = [sale_kale 4]
   \<and> stocks ''P-kale'' (snd (restoreSale env2 deleted_log store_deleted)) = [2]
   \<and> map log_id (logs (snd (restoreSale env2 deleted_log store_deleted))) = [''L-2'', ''L-0'']
   \<and> map action (logs (snd (restoreSale env2 deleted_log store_deleted))) = [Created, Created]
   \<and> list_ex (\<lambda>x. sale_id x = sale_id (sale_kale 4))
       (sales (snd (restoreSale env2 deleted_log store_deleted)))
   \<and> restoreSale env2 deleted_log (snd (restoreSale env2 deleted_log store_deleted))
       = (Some ''This record is already present in the active ledger.'',
          snd (restoreSale env2 deleted_log store_deleted))"
proof -
  have m: "metadata bob_log = None" "metadata deleted_log = Some (sale_kale 4)"
    by (simp_all add: bob_log_def deleted_log_def)
  have d: "sales store_deleted = []
     \<and> logs store_deleted = [deleted_log, hd (logs store_sold)]
     \<and> stocks ''P-kale'' store_deleted = [6]"
    by (simp add: store_deleted_def store_sold_def addSale_def deleteSale_def
        recordActivity_def Let_def store0_def sale_kale_def kale_def rice_def alice_def bob_def
        stocks_def deleted_log_def env1_def productNameOr_def customerNameOr_def orElse_def)
  have g: "\<not> list_ex (\<lambda>x. sale_id x = sale_id (sale_kale 4)) (sales store_deleted)"
    using d by simp
  have r: "sales (snd (restoreSale env2 deleted_log store_deleted)) = [sale_kale 4]
     \<and> stocks ''P-kale'' (snd (restoreSale env2 deleted_log store_deleted)) = [2]
     \<and> map log_id (logs (snd (restoreSale env2 deleted_log store_deleted))) = [''L-2'', ''L-0'']
     \<and> map action (logs (snd (restoreSale env2 deleted_log store_deleted)))
         = [Created, Created]"
    by (simp add: restoreSale_def store_deleted_def store_sold_def addSale_def deleteSale_def
        recordActivity_def Let_def store0_def sale_kale_def kale_def rice_def alice_def bob_def
        stocks_def deleted_log_def env0_def env1_def env2_def productNameOr_def
        customerNameOr_def orElse_def)
  have t1: "restoreSale env2 bob_log store0 = (None, store0)"
    using restoreSale_guard_and_effect [of bob_log env2 store0] m by simp
  have t2: "fst (restoreSale env2 deleted_log store_deleted) = None
     \<and> restoreSale env2 deleted_log (snd (restoreSale env2 deleted_log store_deleted))
         = (Some ''This record is already present in the active ledger.'',
            snd (restoreSale env2 deleted_log store_deleted))"
    using restoreSale_guard_and_effect
      [of deleted_log env2 store_deleted "sale_kale 4" env2] m g by simp
  show ?thesis
    using m d g r t1 t2 by simp
qed

section \<open>Bulk import wipe\<close>

lemma imageResolved_shape:
  "sales (imageResolved pid url st) = sales st
   \<and> customers (imageResolved pid url st) = customers st
   \<and> expenses (imageResolved pid url st) = expenses st
   \<and> liabilities (imageResolved pid url st) = liabilities st
   \<and> logs (imageResolved pid url st) = logs st
   \<and> themeMode (imageResolved pid url st) = themeMode st
   \<and> dateSystem (imageResolved pid url st) = dateSystem st
   \<and> currencyCode (imageResolved pid url st) = currencyCode st
   \<and> customCurrency (imageResolved pid url st) = customCurrency st
   \<and> map (\<lambda>p. p\<lparr>imageUrl := None, isGeneratingImage := None\<rparr>)
        (products (imageResolved pid url st))
       = map (\<lambda>p. p\<lparr>imageUrl := None, isGeneratingImage := None\<rparr>) (products st)"
  by (simp add: imageResolved_def)

lemma imagesResolved_shape:
  "sales (imagesResolved rs st) = sales st
   \<and> customers (imagesResolved rs st) = customers st
   \<and> expenses (imagesResolved rs st) = expenses st
   \<and> liabilities (imagesResolved rs st) = liabilities st
   \<and> logs (imagesResolved rs st) = logs st
   \<and> themeMode (imagesResolved rs st) = themeMode st
   \<and> dateSystem (imagesResolved rs st) = dateSystem st
   \<and> currencyCode (imagesResolved rs st) = currencyCode st
   \<and> customCurrency (imagesResolved rs st) = customCurrency st
   \<and> map (\<lambda>p. p\<lparr>imageUrl := None, isGeneratingImage := None\<rparr>)
        (products (imagesResolved rs st))
       = map (\<lambda>p. p\<lparr>imageUrl := None, isGeneratingImage := None\<rparr>) (products st)"
proof (induction rs arbitrary: st)
  case Nil
  show ?case by simp
next
  case (Cons r rs)
  obtain pid url where r: "r = (pid, url)" by (cases r)
  show ?case
    unfolding r imagesResolved.simps
    using Cons.IH [of "imageResolved pid url st"] imageResolved_shape [of pid url st]
    by simp
qed

text \<open>
  Claim C5. Right after \<^verbatim>\<open>addProductsBulk\<close> the products collection is the imported
  list with the image-generation flag set on every record. From then on, whichever image
  requests have resolved so far (\<open>rs\<close>, in any order, for any ids, with any result), the
  sales, customers, expenses, liabilities and logs are empty, the products are the imported
  list up to image URL and image-generation flag, and the four configuration scalars are
  those of the store before the import.
\<close>

theorem addProductsBulk_wipe:
  "products (addProductsBulk newProducts st)
     = map (\<lambda>p. p\<lparr>isGeneratingImage := Some True\<rparr>) newProducts
   \<and> sales (imagesResolved rs (addProductsBulk newProducts st)) = []
   \<and> customers (imagesResolved rs (addProductsBulk newProducts st)) = []
   \<and> expenses (imagesResolved rs (addProductsBulk newProducts st)) = []
   \<and> liabilities (imagesResolved rs (addProductsBulk newProducts st)) = []
   \<and> logs (imagesResolved rs (addProductsBulk newProducts st)) = []
   \<and> map (\<lambda>p. p\<lparr>imageUrl := None, isGeneratingImage := None\<rparr>)
        (products (imagesResolved rs (addProductsBulk newProducts st)))
       = map (\<lambda>p. p\<lparr>imageUrl := None, isGeneratingImage := None\<rparr>) newProducts
   \<and> themeMode (imagesResolved rs (addProductsBulk newProducts st)) = themeMode st
   \<and> dateSystem (imagesResolved rs (addProductsBulk newProducts st)) = dateSystem st
   \<and> currencyCode (imagesResolved rs (addProductsBulk newProducts st)) = currencyCode st
   \<and> customCurrency (imagesResolved rs (addProductsBulk newProducts st)) = customCurrency st"
  using imagesResolved_shape [of rs "addProductsBulk newProducts st"]
  by (simp add: addProductsBulk_def Let_def)

section \<open>Liability settlement\<close>

text \<open>
  Claim C6, as stated, fails for \<^verbatim>\<open>updateLiability\<close>: it replaces the stored record by
  the one it is given, so a record with status Active re-activates a settled liability.
\<close>

theorem updateLiability_reactivates_counterexample:
  "map liability_id (liabilities store_settled) = [''LB-1'']
   \<and> map status (liabilities store_settled) = [Settled]
   \<and> liability_id (loan Active) = ''LB-1''
   \<and> map liability_id (liabilities (updateLiability (loan Active) store_settled)) = [''LB-1'']
   \<and> map status (liabilities (updateLiability (loan Active) store_settled)) = [Active]"
  by (simp add: store_settled_def store0_def loan_def updateLiability_def)

lemma liability_step:
  assumes "keeps_settled lid op"
  shows "\<exists>added kept. liabilities (apply_liability_op op st) = added @ kept
           \<and> list_all2 (\<lambda>l l'. liability_id l' = liability_id l
                 \<and> (liability_id l = lid \<and> status l = Settled \<longrightarrow> status l' = Settled))
               (liabilities st) kept"
proof (cases op)
  case (AddLiability lib)
  have "liabilities (apply_liability_op op st) = [lib] @ liabilities st"
    using AddLiability by (simp add: addLiability_def)
  moreover have "list_all2 (\<lambda>l l'. liability_id l' = liability_id l
                 \<and> (liability_id l = lid \<and> status l = Settled \<longrightarrow> status l' = Settled))
               (liabilities st) (liabilities st)"
    by (simp add: list_all2_same)
  ultimately show ?thesis by blast
next
  case (UpdateLiability u)
  have "liabilities (apply_liability_op op st)
          = [] @ map (\<lambda>l. if liability_id l = liability_id u then u else l) (liabilities st)"
    using UpdateLiability by (simp add: updateLiability_def)
  moreover have "list_all2 (\<lambda>l l'. liability_id l' = liability_id l
                 \<and> (liability_id l = lid \<and> status l = Settled \<longrightarrow> status l' = Settled))
               (liabilities st)
               (map (\<lambda>l. if liability_id l = liability_id u then u else l) (liabilities st))"
    using assms UpdateLiability
    by (auto simp add: list_all2_map2 list_all2_same keeps_settled_def split: if_splits)
  ultimately show ?thesis by blast
next
  case (SettleLiability i)
  have "liabilities (apply_liability_op op st)
          = [] @ map (\<lambda>lib. if liability_id lib = i then lib\<lparr>status := Settled\<rparr> else lib)
                   (liabilities st)"
    using SettleLiability by (simp add: settleLiability_def)
  moreover have "list_all2 (\<lambda>l l'. liability_id l' = liability_id l
                 \<and> (liability_id l = lid \<and> status l = Settled \<longrightarrow> status l' = Settled))
               (liabilities st)
               (map (\<lambda>lib. if liability_id lib = i then lib\<lparr>status := Settled\<rparr> else lib)
                  (liabilities st))"
    by (auto simp add: list_all2_map2 list_all2_same)
  ultimately show ?thesis by blast
qed

text \<open>
  Claim C6, amended. The source defines \<^verbatim>\<open>addLiability\<close>, \<^verbatim>\<open>updateLiability\<close> and
  \<^verbatim>\<open>settleLiability\<close>, and no \<^verbatim>\<open>deleteLiability\<close>. Take any sequence of these
  operations in which no \<^verbatim>\<open>updateLiability\<close> is given a record with the id \<open>lid\<close> and the
  status Active. Then the liabilities afterwards are those added by the sequence followed
  by the ones stored before, in their order and with their ids, and every one of the
  latter that had the id \<open>lid\<close> and was Settled is still Settled.
\<close>

theorem settled_stays_settled:
  assumes "list_all (keeps_settled lid) ops"
  shows "\<exists>added kept. liabilities (run_liability_ops ops st) = added @ kept
           \<and> list_all2 (\<lambda>l l'. liability_id l' = liability_id l
                 \<and> (liability_id l = lid \<and> status l = Settled \<longrightarrow> status l' = Settled))
               (liabilities st) kept"
  using assms
proof (induction ops arbitrary: st)
  case Nil
  have "liabilities st = [] @ liabilities st" by simp
  moreover have "list_all2 (\<lambda>l l'. liability_id l' = liability_id l
                 \<and> (liability_id l = lid \<and> status l = Settled \<longrightarrow> status l' = Settled))
               (liabilities st) (liabilities st)"
    by (simp add: list_all2_same)
  ultimately show ?case unfolding run_liability_ops.simps by blast
next
  case (Cons op ops)
  let ?R = "\<lambda>l l'. liability_id l' = liability_id l
                 \<and> (liability_id l = lid \<and> status l = Settled \<longrightarrow> status l' = Settled)"
  let ?st = "apply_liability_op op st"
  from Cons.prems have k: "keeps_settled lid op" and ks: "list_all (keeps_settled lid) ops"
    by simp_all
  from liability_step [OF k, of st] obtain a1 k1
    where s1: "liabilities ?st = a1 @ k1" and r1: "list_all2 ?R (liabilities st) k1"
    by blast
  from Cons.IH [OF ks, of ?st] obtain a2 k2
    where s2: "liabilities (run_liability_ops ops ?st) = a2 @ k2"
      and r2: "list_all2 ?R (liabilities ?st) k2"
    by blast
  from r2 s1 obtain k2a k2b
    where k2: "k2 = k2a @ k2b" and rb: "list_all2 ?R k1 k2b"
    by (auto simp add: list_all2_append1)
  have "list_all2 ?R (liabilities st) k2b"
    using r1 rb by (rule list_all2_trans [rotated]) auto
  moreover have "liabilities (run_liability_ops (op # ops) st) = (a2 @ k2a) @ k2b"
    using s2 k2 by simp
  ultimately show ?case by blast
qed

text \<open>
  In \<open>ops_liability\<close> the settled loan is settled again, another loan is added and later
  updated with status Active, and the settled loan is updated with a record that is
  Settled: it stays Settled, behind the loan that was added.
\<close>

theorem settled_stays_settled_witness:
  "list_all (keeps_settled ''LB-1'') ops_liability
   \<and> map liability_id (liabilities store_settled) = [''LB-1'']
   \<and> map status (liabilities store_settled) = [Settled]
   \<and> map liability_id (liabilities (run_liability_ops ops_liability store_settled))
       = [''LB-2'', ''LB-1'']
   \<and> map status (liabilities (run_liability_ops ops_liability store_settled))
       = [Active, Settled]
   \<and> (\<exists>added kept.
         liabilities (run_liability_ops ops_liability store_settled) = added @ kept
         \<and> list_all2 (\<lambda>l l'. liability_id l' = liability_id l
               \<and> (liability_id l = ''LB-1'' \<and> status l = Settled \<longrightarrow> status l' = Settled))
             (liabilities store_settled) kept)"
proof -
  have h: "list_all (keeps_settled ''LB-1'') ops_liability"
    by (simp add: ops_liability_def keeps_settled_def loan_def)
  have c: "map liability_id (liabilities store_settled) = [''LB-1'']
     \<and> map status (liabilities store_settled) = [Settled]
     \<and> map liability_id (liabilities (run_liability_ops ops_liability store_settled))
         = [''LB-2'', ''LB-1'']
     \<and> map status (liabilities (run_liability_ops ops_liability store_settled))
         = [Active, Settled]"
    by (simp add: ops_liability_def loan_def store0_def store_settled_def addLiability_def
        updateLiability_def settleLiability_def)
  show ?thesis
    using h c settled_stays_settled [OF h, of store_settled] by blast
qed

section \<open>Cascade rename\<close>

text \<open>
  Claim C7. Let \<open>old\<close> be the customer that \<^verbatim>\<open>customers.find\<close> returns for the id of the
  updated customer. Then \<^verbatim>\<open>updateCustomer\<close> replaces the stored record by the new one and
  keeps the number and order of the logs. When the name changed, a log whose customerName
  is the old name is that log with the new name as customerName, and every other log is
  unchanged; when the name did not change, the logs collection is the one before.
\<close>

theorem updateCustomer_cascade_rename:
  assumes "find (\<lambda>c. customer_id c = customer_id upd) (customers st) = Some old"
  shows "customers (updateCustomer upd st)
           = map (\<lambda>c. if customer_id c = customer_id upd then upd else c) (customers st)
       \<and> length (logs (updateCustomer upd st)) = length (logs st)
       \<and> (\<forall>i < length (logs st).
             logs (updateCustomer upd st) ! i =
               (if customer_name old \<noteq> customer_name upd
                   \<and> customerName (logs st ! i) = customer_name old
                then (logs st ! i)\<lparr>customerName := customer_name upd\<rparr>
                else logs st ! i))
       \<and> (customer_name old = customer_name upd \<longrightarrow> logs (updateCustomer upd st) = logs st)"
  using assms by (simp add: updateCustomer_def Let_def)

text \<open>
  Alice becomes Alice Smith: her log is renamed and Bob's is untouched. A change of her
  phone number alone leaves the logs as they were.
\<close>

theorem updateCustomer_cascade_rename_witness:
  "find (\<lambda>c. customer_id c = customer_id (alice\<lparr>customer_name := ''Alice Smith''\<rparr>))
     (customers store_logs) = Some alice
   \<and> customers (updateCustomer (alice\<lparr>customer_name := ''Alice Smith''\<rparr>) store_logs)
       = [alice\<lparr>customer_name := ''Alice Smith''\<rparr>, bob]
   \<and> logs (updateCustomer (alice\<lparr>customer_name := ''Alice Smith''\<rparr>) store_logs)
       = [deleted_log\<lparr>customerName := ''Alice Smith''\<rparr>, bob_log]
   \<and> find (\<lambda>c. customer_id c = customer_id (alice\<lparr>phone := ''3''\<rparr>)) (customers store_logs)
       = Some alice
   \<and> customer_name alice = customer_name (alice\<lparr>phone := ''3''\<rparr>)
   \<and> logs (updateCustomer (alice\<lparr>phone := ''3''\<rparr>) store_logs) = logs store_logs"
proof -
  have h1: "find (\<lambda>c. customer_id c = customer_id (alice\<lparr>customer_name := ''Alice Smith''\<rparr>))
              (customers store_logs) = Some alice"
    by (simp add: store_logs_def store0_def alice_def)
  have h2: "find (\<lambda>c. customer_id c = customer_id (alice\<lparr>phone := ''3''\<rparr>))
              (customers store_logs) = Some alice"
    by (simp add: store_logs_def store0_def alice_def)
  have c: "customers (updateCustomer (alice\<lparr>customer_name := ''Alice Smith''\<rparr>) store_logs)
             = [alice\<lparr>customer_name := ''Alice Smith''\<rparr>, bob]
     \<and> logs (updateCustomer (alice\<lparr>customer_name := ''Alice Smith''\<rparr>) store_logs)
         = [deleted_log\<lparr>customerName := ''Alice Smith''\<rparr>, bob_log]"
    by (simp add: updateCustomer_def Let_def store_logs_def store0_def alice_def bob_def
        deleted_log_def bob_log_def)
  have n: "customer_name alice = customer_name (alice\<lparr>phone := ''3''\<rparr>)"
    by simp
  have t: "logs (updateCustomer (alice\<lparr>phone := ''3''\<rparr>) store_logs) = logs store_logs"
    using updateCustomer_cascade_rename [OF h2] n by blast
  show ?thesis
    using h1 h2 c n t conjunct1 [OF updateCustomer_cascade_rename [OF h1]] by simp
qed

section \<open>Cascade delete\<close>

text \<open>
  Claim C8. \<^verbatim>\<open>deleteCustomer\<close> keeps exactly the customers with another id and exactly the
  sales of other customers, so no sale of the deleted customer is left; the products,
  expenses, liabilities and logs are the ones before.
\<close>

theorem deleteCustomer_cascade:
  "customers (deleteCustomer cid st) = filter (\<lambda>c. customer_id c \<noteq> cid) (customers st)
   \<and> sales (deleteCustomer cid st) = filter (\<lambda>s. customerId s \<noteq> cid) (sales st)
   \<and> filter (\<lambda>s. customerId s = cid) (sales (deleteCustomer cid st)) = []
   \<and> products (deleteCustomer cid st) = products st
   \<and> expenses (deleteCustomer cid st) = expenses st
   \<and> liabilities (deleteCustomer cid st) = liabilities st
   \<and> logs (deleteCustomer cid st) = logs st"
  by (simp add: deleteCustomer_def Let_def filter_empty_conv)

section \<open>Debounce collapse\<close>

text \<open>
  After a burst the controller holds one pending timeout: the one of the last change.
\<close>

lemma runChanges_pending:
  assumes "user \<noteq> None \<or> off" "\<not> firstSync c" "cs \<noteq> []" "burst cs"
    and "timer c = None
           \<or> (\<exists>st0 due. timer c = Some (due, user, off, st0) \<and> fst (hd cs) < due)"
  shows "runChanges user off cs c
           = c\<lparr>timer := Some (fst (last cs) + 1000, user, off, snd (last cs))\<rparr>"
  using assms
proof (induction cs arbitrary: c)
  case Nil
  then show ?case by simp
next
  case (Cons x cs)
  obtain t st where x: "x = (t, st)" by (cases x)
  have idle: "timerDue t c = c"
    using Cons.prems(5) by (auto simp add: timerDue_def x)
  have eff: "syncEffect user off t st c = c\<lparr>timer := Some (t + 1000, user, off, st)\<rparr>"
    using Cons.prems(1,2) by (auto simp add: syncEffect_def Let_def)
  show ?case
  proof (cases cs)
    case Nil
    then show ?thesis by (simp add: x idle eff)
  next
    case (Cons y ys)
    obtain t2 s2 where y: "y = (t2, s2)" by (cases y)
    let ?c = "c\<lparr>timer := Some (t + 1000, user, off, st)\<rparr>"
    have b: "burst cs" "t2 < t + 1000"
      using Cons.prems(4) by (simp_all add: x Cons y)
    have "runChanges user off cs ?c
            = ?c\<lparr>timer := Some (fst (last cs) + 1000, user, off, snd (last cs))\<rparr>"
      using Cons.prems(1,2) b by (intro Cons.IH) (simp_all add: Cons y)
    then show ?thesis by (simp add: x idle eff Cons)
  qed
qed

text \<open>
  Claim C9. Let a backend be active (a user is signed in or the app is in offline mode),
  the first-sync guard be spent, and no timeout be pending. Then an effect run at time
  \<open>t\<close> leaves the timeout due at \<open>t + 1000\<close> with the store of that run, and a further run
  at \<open>t'\<close> leaves the timeout due at \<open>t' + 1000\<close> with its store in its place. A non-empty
  burst of changes writes nothing while it lasts; once the clock has passed the last
  change by 1000 ms, exactly one write is added, it carries the store of the last change,
  and no timeout is pending any more.
\<close>

theorem debounce_collapse:
  assumes "user \<noteq> None \<or> off" "\<not> firstSync c" "timer c = None"
    and "cs \<noteq> []" "burst cs" "fst (last cs) + 1000 \<le> T"
  shows "timer (syncEffect user off t st c) = Some (t + 1000, user, off, st)
       \<and> timer (syncEffect user off t' st' (syncEffect user off t st c))
           = Some (t' + 1000, user, off, st')
       \<and> flushes (runChanges user off cs c) = flushes c
       \<and> flushes (timerDue T (runChanges user off cs c))
           = flushes c @ [if off then LocalWrite (snd (last cs)) T
                          else CloudWrite (the user) (snd (last cs)) T]
       \<and> timer (timerDue T (runChanges user off cs c)) = None"
proof -
  have r: "runChanges user off cs c
           = c\<lparr>timer := Some (fst (last cs) + 1000, user, off, snd (last cs))\<rparr>"
    using assms by (intro runChanges_pending) simp_all
  show ?thesis
    using assms(1,2,6) unfolding r
    by (auto simp add: syncEffect_def Let_def timerDue_def triggerSync_def)
qed

text \<open>
  In offline mode the run at mount spends the guard and schedules nothing. Three edits
  follow at 10, 300 and 900 ms: nothing is written by 1899 ms, and at 1900 ms the store of
  the third edit is written, once.
\<close>

theorem debounce_collapse_witness:
  "ctl0 = \<lparr>firstSync = False, timer = None, flushes = []\<rparr>
   \<and> edits0 \<noteq> [] \<and> burst edits0
   \<and> fst (last edits0) + 1000 \<le> 1900
   \<and> flushes (timerDue 1899 (runChanges None True edits0 ctl0)) = []
   \<and> flushes (timerDue 1900 (runChanges None True edits0 ctl0)) = [LocalWrite store0 1900]
   \<and> timer (timerDue 1900 (runChanges None True edits0 ctl0)) = None"
proof -
  have i: "ctl0 = \<lparr>firstSync = False, timer = None, flushes = []\<rparr>"
    by (simp add: ctl0_def ctl_init_def syncEffect_def Let_def)
  have h: "\<not> firstSync ctl0" "timer ctl0 = None" "edits0 \<noteq> []" "burst edits0"
    "fst (last edits0) + 1000 \<le> 1900"
    by (simp_all add: i edits0_def)
  have a: "(None :: string option) \<noteq> None \<or> True" by simp
  have e: "flushes (timerDue 1899 (runChanges None True edits0 ctl0)) = []"
    by (simp add: i edits0_def syncEffect_def timerDue_def triggerSync_def Let_def)
  have l: "snd (last edits0) = store0" "flushes ctl0 = []"
    by (simp_all add: i edits0_def)
  show ?thesis
    using i h e l debounce_collapse [OF a h, of 0 store0 0 store0] by simp
qed

section \<open>Bulk sales import\<close>

lemma updateFirst_set: "set (updateFirst P f xs) \<subseteq> set xs \<union> f ` set xs"
  by (induction xs) auto

lemma importRow_stock:
  assumes "\<forall>p \<in> set (fst (snd acc)). currentStock p = 0" and "0 < Quantity row"
  shows "\<forall>p \<in> set (fst (snd (importRow env row index acc))). currentStock p = 0"
proof -
  obtain ss ps cs where acc: "acc = (ss, ps, cs)" by (cases acc)
  let ?same = "\<lambda>p. trim (toLowerCase (product_name p)) = trim (toLowerCase (Product row))"
  let ?dec = "\<lambda>p. p\<lparr>currentStock := max 0 (currentStock p - Quantity row)\<rparr>"
  define fresh where
    "fresh = \<lparr>product_id = ''PROD-'' @ showNumber env (nowAt env index) @ ''-''
                  @ showNumber env (real index),
              product_name = Product row, unit = orElse (Unit row) ''kg'',
              basePrice = Amount row / (if Quantity row = 0 then 1 else Quantity row),
              category = orElse (Category row) ''General'', imageUrl = None,
              isGeneratingImage = Some True, currentStock = 0, minStockLevel = 5,
              discountPercentage = None, taxPercentage = None\<rparr>"
  define ps1 where "ps1 = (case find ?same ps of Some p \<Rightarrow> ps | None \<Rightarrow> ps @ [fresh])"
  have eq: "fst (snd (importRow env row index acc)) = updateFirst ?same ?dec ps1"
    unfolding acc ps1_def fresh_def
    by (simp add: importRow_def Let_def split: option.splits)
  have z: "\<forall>p \<in> set ps1. currentStock p = 0"
    using assms(1) unfolding acc ps1_def fresh_def by (auto split: option.splits)
  have dec: "currentStock (?dec p) = 0" if "currentStock p = 0" for p :: Product
    using that assms(2) by simp
  show ?thesis
    unfolding eq using updateFirst_set [of ?same ?dec ps1] z dec by blast
qed

lemma importRows_stock:
  assumes "\<forall>p \<in> set (fst (snd acc)). currentStock p = 0"
    and "\<forall>r \<in> set rows. 0 < Quantity r"
  shows "\<forall>p \<in> set (fst (snd (importRows env rows index acc))). currentStock p = 0"
  using assms
proof (induction rows arbitrary: index acc)
  case Nil
  then show ?case by simp
next
  case (Cons row rows)
  have "\<forall>p \<in> set (fst (snd (importRow env row index acc))). currentStock p = 0"
    using Cons.prems by (intro importRow_stock) simp_all
  then show ?case
    using Cons.prems(2) by (simp add: Cons.IH)
qed

text \<open>
  Claim C10. When every row of the batch has a positive quantity, every product in the
  products collection after \<^verbatim>\<open>bulkImportSales\<close> has currentStock 0: a product is created
  with stock 0, and each decrement of a stock of 0 by a positive quantity is floored at 0.
\<close>

theorem bulkImportSales_stock_zero:
  assumes "\<forall>r \<in> set parsedRows. 0 < Quantity r"
  shows "\<forall>p \<in> set (products (bulkImportSales env parsedRows st)). currentStock p = 0"
proof -
  have "\<forall>p \<in> set (fst (snd (importRows env parsedRows 0 ([], [], [])))). currentStock p = 0"
    using assms by (intro importRows_stock) simp_all
  then show ?thesis
    by (simp add: bulkImportSales_def Let_def split: prod.splits)
qed

text \<open>
  The three rows of \<open>rows0\<close> give two products, Kale (named by two rows) and Rice, both
  with stock 0.
\<close>

theorem bulkImportSales_stock_zero_witness:
  "list_all (\<lambda>r. 0 < Quantity r) rows0
   \<and> map product_name (products (bulkImportSales import_env0 rows0 store_settled))
       = [''Kale'', ''Rice'']
   \<and> map customer_name (customers (bulkImportSales import_env0 rows0 store_settled))
       = [''Alice'', ''Bob'']
   \<and> map paymentStatus (sales (bulkImportSales import_env0 rows0 store_settled))
       = [Paid, Pending, Paid]
   \<and> liabilities (bulkImportSales import_env0 rows0 store_settled) = []
   \<and> list_all (\<lambda>p. currentStock p = 0)
       (products (bulkImportSales import_env0 rows0 store_settled))"
proof -
  have h: "\<forall>r \<in> set rows0. 0 < Quantity r"
    by (simp add: rows0_def)
  have c: "map product_name (products (bulkImportSales import_env0 rows0 store_settled))
             = [''Kale'', ''Rice'']
     \<and> map customer_name (customers (bulkImportSales import_env0 rows0 store_settled))
         = [''Alice'', ''Bob'']
     \<and> map paymentStatus (sales (bulkImportSales import_env0 rows0 store_settled))
         = [Paid, Pending, Paid]
     \<and> liabilities (bulkImportSales import_env0 rows0 store_settled) = []"
    by (simp add: bulkImportSales_def importRow_def Let_def rows0_def import_env0_def
        toLowerCase_def toLowerChar_def trim_def isWhiteSpace_def orElse_def)
  show ?thesis
    using h c bulkImportSales_stock_zero [OF h, of import_env0 store_settled]
    by (simp add: list_all_iff)
qed

end
